theory Spec2Isabelle
  imports Main
begin

chapter \<open>The model\<close>

section \<open>Local time\<close>

text \<open>
  The calendar service computes with \<^verbatim>\<open>moment\<close> objects in local time. An instant is
  modelled by its local calendar fields: the day as a day number (days since 1970-01-01, which
  stands for the \<^verbatim>\<open>YYYY-MM-DD\<close> text of the date, an injective rendering), and the hour,
  minute, second and millisecond of that day. Daylight-saving shifts are not modelled.
\<close>

record instant =
  day :: nat
  hour :: nat
  minute :: nat
  second :: nat
  millisecond :: nat

text \<open>\<^verbatim>\<open>valueOf()\<close>: milliseconds since the epoch; \<^verbatim>\<open>isBefore\<close> compares these.\<close>

definition valueOf :: "instant \<Rightarrow> nat" where
  "valueOf t = (((day t * 24 + hour t) * 60 + minute t) * 60 + second t) * 1000 + millisecond t"

definition isBefore :: "instant \<Rightarrow> instant \<Rightarrow> bool" where
  "isBefore a b = (valueOf a < valueOf b)"

text \<open>\<^verbatim>\<open>a.isBefore(b, 'day')\<close>: the date of \<open>a\<close> is before the date of \<open>b\<close>.\<close>

definition isBefore_day :: "instant \<Rightarrow> instant \<Rightarrow> bool" where
  "isBefore_day a b = (day a < day b)"

definition add_days :: "nat \<Rightarrow> instant \<Rightarrow> instant" where
  "add_days n t = t\<lparr>day := day t + n\<rparr>"

text \<open>\<^verbatim>\<open>.day()\<close>: the day of the week, Sunday being 0; 1970-01-01 was a Thursday.\<close>

definition weekday :: "nat \<Rightarrow> nat" where
  "weekday d = (d + 4) mod 7"

definition day_of_week :: "instant \<Rightarrow> nat" where
  "day_of_week t = weekday (day t)"

text \<open>\<^verbatim>\<open>moment(dateText)\<close> of a date without a time of day: midnight of that date.\<close>

definition start_of_date :: "nat \<Rightarrow> instant" where
  "start_of_date d = \<lparr>day = d, hour = 0, minute = 0, second = 0, millisecond = 0\<rparr>"

text \<open>
  The formats used as keys and as slot fields: \<^verbatim>\<open>YYYY-MM-DD HH:mm\<close> is the triple of day,
  hour and minute, \<^verbatim>\<open>YYYY-MM-DD\<close> the day, \<^verbatim>\<open>HH:mm\<close> the pair of hour and minute.
\<close>

definition format_key :: "instant \<Rightarrow> nat \<times> nat \<times> nat" where
  "format_key t = (day t, hour t, minute t)"

definition format_time :: "instant \<Rightarrow> nat \<times> nat" where
  "format_time t = (hour t, minute t)"

section \<open>The slot calculator of the calendar service\<close>

record time_slot =
  ts_date :: nat
  ts_time :: "nat \<times> nat"
  ts_available :: bool

record day_time_slot =
  ds_duration :: string
  ds_date :: nat
  ds_available :: bool

text \<open>
  A calendar event, as far as the service reads it. The calendar API gives a timed event
  its \<^verbatim>\<open>start.dateTime\<close> and an all-day event its \<^verbatim>\<open>start.date\<close>, never both; the
  service reads \<^verbatim>\<open>event.start.dateTime\<close> only.
\<close>

record event =
  start_dateTime :: "instant option"
  start_date :: "nat option"

text \<open>
  \<^verbatim>\<open>moment(event.start.dateTime)\<close>: the instant the text denotes, and for
  \<^verbatim>\<open>undefined\<close> the current time, \<open>clock\<close>. \<open>seen k\<close> is the clock reading
  while the callback of \<^verbatim>\<open>items.map\<close> runs on item \<open>k\<close>.
\<close>

definition moment :: "instant \<Rightarrow> instant option \<Rightarrow> instant" where
  "moment clock input = (case input of Some t \<Rightarrow> t | None \<Rightarrow> clock)"

definition event_starts :: "(nat \<Rightarrow> instant) \<Rightarrow> event list \<Rightarrow> instant list" where
  "event_starts seen items =
     map (\<lambda>(k, event). moment (seen k) (start_dateTime event)) (enumerate 0 items)"

definition workingHours :: "nat list" where
  "workingHours = [8, 9, 10, 11, 14, 15, 16, 17, 18, 19]"

text \<open>
  The body of the inner loop shared by the three time-slot queries: for one hour of the
  template, \<^verbatim>\<open>base.clone().hour(hour).minute(0)\<close> (seconds and milliseconds of \<open>base\<close>
  are kept), skipped when before \<open>now\<close>, otherwise pushed with its availability.
\<close>

definition slot_at :: "instant \<Rightarrow> nat \<Rightarrow> instant" where
  "slot_at base h = base\<lparr>hour := h, minute := 0\<rparr>"

fun hour_loop :: "instant \<Rightarrow> instant \<Rightarrow> (nat \<times> nat \<times> nat) set \<Rightarrow> nat list \<Rightarrow> time_slot list" where
  "hour_loop now base busySlots [] = []"
| "hour_loop now base busySlots (h # hs) =
     (let slotTime = slot_at base h in
      if isBefore slotTime now then hour_loop now base busySlots hs
      else \<lparr>ts_date = day slotTime, ts_time = format_time slotTime,
             ts_available = (format_key slotTime \<notin> busySlots)\<rparr>
           # hour_loop now base busySlots hs)"

text \<open>
  \<^verbatim>\<open>getAvailableSlots(daysAhead)\<close>, after the credential refresh and the fetch of the
  events \<open>items\<close>. \<open>now\<close> is the clock reading taken first; \<open>tick d\<close> is the reading
  \<^verbatim>\<open>moment()\<close> returns in iteration \<open>d\<close> of the day loop.
\<close>

fun day_loop :: "instant \<Rightarrow> (nat \<Rightarrow> instant) \<Rightarrow> (nat \<times> nat \<times> nat) set \<Rightarrow> nat list \<Rightarrow> time_slot list" where
  "day_loop now tick busySlots [] = []"
| "day_loop now tick busySlots (d # ds) =
     (let currentDate = add_days d (tick d) in
      if isBefore_day currentDate now \<or> day_of_week currentDate = 0
      then day_loop now tick busySlots ds
      else hour_loop now currentDate busySlots workingHours @ day_loop now tick busySlots ds)"

definition getAvailableSlots ::
  "instant \<Rightarrow> (nat \<Rightarrow> instant) \<Rightarrow> (nat \<Rightarrow> instant) \<Rightarrow> event list \<Rightarrow> nat \<Rightarrow> time_slot list" where
  "getAvailableSlots now seen tick items daysAhead =
     (let busySlots = set (map format_key (event_starts seen items));
          availableSlots = day_loop now tick busySlots [0..<daysAhead]
      in filter ts_available availableSlots)"

text \<open>
  \<^verbatim>\<open>getAvailableTimeSlots(time)\<close>: the single-day query. \<open>d\<close> is the date parsed from the
  callback text; \<open>bookingDate\<close> is midnight of that date.
\<close>

definition getAvailableTimeSlots ::
  "instant \<Rightarrow> (nat \<Rightarrow> instant) \<Rightarrow> nat \<Rightarrow> event list \<Rightarrow> time_slot list" where
  "getAvailableTimeSlots now seen d items =
     (let bookingDate = start_of_date d;
          busySlots = set (map format_key (event_starts seen items));
          availableSlots = hour_loop now bookingDate busySlots workingHours
      in filter ts_available availableSlots)"

text \<open>\<^verbatim>\<open>getAvailableDaySlots(duration, daysAhead)\<close>: the day-level query.\<close>

definition getAvailableDaySlots ::
  "(nat \<Rightarrow> instant) \<Rightarrow> (nat \<Rightarrow> instant) \<Rightarrow> event list \<Rightarrow> string \<Rightarrow> nat \<Rightarrow> day_time_slot list" where
  "getAvailableDaySlots seen tick items duration daysAhead =
     (let busySlots = set (map day (event_starts seen items));
          availableSlots =
            map (\<lambda>d. let currentDate = day (add_days d (tick d)) in
                   \<lparr>ds_duration = duration, ds_date = currentDate,
                    ds_available = (currentDate \<notin> busySlots)\<rparr>) [0..<daysAhead]
      in filter ds_available availableSlots)"

text \<open>
  Vocabulary of the statements about slots: the instant at which a returned slot starts
  (its date and \<^verbatim>\<open>HH:mm\<close> time, at second 0), and the busy keys of a list of events.
\<close>

definition slot_start :: "time_slot \<Rightarrow> instant" where
  "slot_start s = \<lparr>day = ts_date s, hour = fst (ts_time s), minute = snd (ts_time s),
                   second = 0, millisecond = 0\<rparr>"

definition busy_keys :: "(nat \<Rightarrow> instant) \<Rightarrow> event list \<Rightarrow> (nat \<times> nat \<times> nat) set" where
  "busy_keys seen items = set (map format_key (event_starts seen items))"

section \<open>The store\<close>

text \<open>
  The rows of table \<^verbatim>\<open>bookings\<close>. The columns a caller supplies on insert
  (\<^verbatim>\<open>Omit<Booking, 'id' | 'createdAt' | 'updatedAt'>\<close>, with the optional
  \<^verbatim>\<open>notes\<close>) form the base record; a stored row extends it by the columns the
  engine fills in. An absent optional property and SQL \<^verbatim>\<open>NULL\<close> are \<open>None\<close>.
  Timestamps are readings of the engine's clock. The column \<^verbatim>\<open>status\<close> holds one of
  the three texts its \<^verbatim>\<open>CHECK\<close> admits.
\<close>

datatype status = Active | Cancelled | Completed

record new_booking =
  telegramUserId :: string
  username :: "string option"
  phoneNumber :: "string option"
  sessionDate :: string
  sessionTime :: string
  googleEventId :: "string option"
  status :: status
  notes_col :: "string option"

record booking = new_booking +
  id_col :: nat
  createdAt :: nat
  updatedAt :: nat

text \<open>
  The rows of table \<^verbatim>\<open>booking_history\<close>. \<^verbatim>\<open>oldValues\<close> and \<^verbatim>\<open>newValues\<close>
  hold the JSON text of an object or \<^verbatim>\<open>NULL\<close>; the object is either a stored row or
  the object passed to \<^verbatim>\<open>createBooking\<close>. The position in the list is the row's id.
\<close>

datatype action = ActCreated | ActModified | ActCancelled | ActCompleted

datatype snapshot = InputValues new_booking | RowValues booking

record history_entry =
  bookingId :: nat
  action :: action
  oldValues :: "snapshot option"
  newValues :: "snapshot option"
  performedBy :: string
  timestamp :: nat

record migration_row =
  m_version :: nat
  m_name :: string
  m_checksum :: string

text \<open>
  The database file: the tables and indexes that exist, the rows of the tables the
  operations below touch, and whether the engine enforces foreign keys. The connection
  sets no \<^verbatim>\<open>foreign_keys\<close> pragma, so that is the default of the engine's build; both
  cases are covered. \<open>bookings_seq\<close> is the \<^verbatim>\<open>AUTOINCREMENT\<close> counter of
  \<^verbatim>\<open>bookings\<close>.
\<close>

record store =
  tables :: "string list"
  indexes :: "string list"
  foreign_keys :: bool
  bookings :: "booking list"
  bookings_seq :: nat
  booking_history :: "history_entry list"
  migrations :: "migration_row list"

datatype error =
    SlotAlreadyBooked
  | BookingNotFound
  | AuthenticationFailed
  | SqliteError string
  | ExternalError string
  | HttpError nat string

text \<open>
  \<open>SlotAlreadyBooked\<close> is \<^verbatim>\<open>Error('This time slot is already booked')\<close>,
  \<open>BookingNotFound\<close> is \<^verbatim>\<open>Error('Booking not found')\<close>, \<open>AuthenticationFailed\<close> is
  \<^verbatim>\<open>Error('Authentication failed. Please re-authenticate.')\<close>; \<open>SqliteError c\<close> is an
  error thrown by the engine with code \<open>c\<close>; \<open>HttpError status message\<close> is an error of the
  HTTP client that carries a response with that status, \<open>ExternalError message\<close> any other
  error thrown outside the repository.
\<close>

subsection \<open>Statements of the engine\<close>

definition slot_of :: "'a new_booking_scheme \<Rightarrow> string \<times> string" where
  "slot_of r = (sessionDate r, sessionTime r)"

definition table_exists :: "store \<Rightarrow> string \<Rightarrow> bool" where
  "table_exists db t = (t \<in> set (tables db))"

text \<open>
  \<^verbatim>\<open>INSERT INTO bookings (...) VALUES (?, ?, ?, ?, ?, ?, ?, ?)\<close>, run outside any
  transaction: the statement commits by itself. The constraint
  \<^verbatim>\<open>unique_session UNIQUE (sessionDate, sessionTime)\<close> ranges over every row of the
  table. The new id is one more than the largest id the table has ever held.
\<close>

definition next_rowid :: "store \<Rightarrow> nat" where
  "next_rowid db = Suc (fold max (map id_col (bookings db)) (bookings_seq db))"

definition inserted_row :: "new_booking \<Rightarrow> nat \<Rightarrow> nat \<Rightarrow> booking" where
  "inserted_row b rowid now =
     \<lparr>telegramUserId = telegramUserId b, username = username b,
      phoneNumber = phoneNumber b, sessionDate = sessionDate b,
      sessionTime = sessionTime b, googleEventId = googleEventId b,
      status = status b,
      notes_col = (if notes_col b = Some [] then None else notes_col b),
      id_col = rowid, createdAt = now, updatedAt = now\<rparr>"

definition insert_booking :: "store \<Rightarrow> new_booking \<Rightarrow> nat \<Rightarrow> error + store \<times> nat" where
  "insert_booking db b now =
     (if slot_of b \<in> set (map slot_of (bookings db))
      then Inl (SqliteError ''SQLITE_CONSTRAINT_UNIQUE'')
      else
        let rowid = next_rowid db;
            row = inserted_row b rowid now
        in Inr (db\<lparr>bookings := bookings db @ [row], bookings_seq := rowid\<rparr>, rowid))"

text \<open>
  \<^verbatim>\<open>logBookingHistory\<close>: prepares and runs the insert into \<^verbatim>\<open>booking_history\<close>.
  Preparing fails when the table does not exist; running fails on the foreign key
  \<^verbatim>\<open>bookingId REFERENCES bookings(id)\<close> when foreign keys are enforced.
\<close>

definition logBookingHistory ::
  "store \<Rightarrow> nat \<Rightarrow> action \<Rightarrow> snapshot option \<Rightarrow> snapshot option \<Rightarrow> string \<Rightarrow> nat \<Rightarrow> error + store" where
  "logBookingHistory db bid act old new who now =
     (if \<not> table_exists db ''booking_history'' then Inl (SqliteError ''SQLITE_ERROR'')
      else if foreign_keys db \<and> bid \<notin> set (map id_col (bookings db))
      then Inl (SqliteError ''SQLITE_CONSTRAINT_FOREIGNKEY'')
      else Inr (db\<lparr>booking_history := booking_history db @
                  [\<lparr>bookingId = bid, action = act, oldValues = old, newValues = new,
                    performedBy = who, timestamp = now\<rparr>]\<rparr>))"

text \<open>\<^verbatim>\<open>initializeStatements\<close>: prepares the statements over \<^verbatim>\<open>bookings\<close>.\<close>

definition initializeStatements :: "store \<Rightarrow> error + unit" where
  "initializeStatements db =
     (if table_exists db ''bookings'' then Inr () else Inl (SqliteError ''SQLITE_ERROR''))"

subsection \<open>The repository\<close>

text \<open>
  Every operation returns the store it leaves behind together with its outcome: a
  statement that has run stays applied when a later one throws.
\<close>

text \<open>The \<^verbatim>\<open>catch\<close> of \<^verbatim>\<open>createBooking\<close>.\<close>

definition createBooking_catch :: "error \<Rightarrow> error" where
  "createBooking_catch e =
     (if e = SqliteError ''SQLITE_CONSTRAINT_UNIQUE'' then SlotAlreadyBooked else e)"

definition createBooking :: "store \<Rightarrow> new_booking \<Rightarrow> nat \<Rightarrow> store \<times> (error + nat)" where
  "createBooking db b now =
     (case initializeStatements db of
        Inl e \<Rightarrow> (db, Inl e)
      | Inr _ \<Rightarrow>
          (case insert_booking db b now of
             Inl e \<Rightarrow> (db, Inl (createBooking_catch e))
           | Inr (db1, rowid) \<Rightarrow>
               (case logBookingHistory db1 rowid ActCreated None (Some (InputValues b))
                       (telegramUserId b) now of
                  Inl e \<Rightarrow> (db1, Inl (createBooking_catch e))
                | Inr db2 \<Rightarrow> (db2, Inr rowid))))"

definition getBookingById :: "store \<Rightarrow> nat \<Rightarrow> error + booking option" where
  "getBookingById db i =
     (case initializeStatements db of
        Inl e \<Rightarrow> Inl e
      | Inr _ \<Rightarrow> Inr (find (\<lambda>r. id_col r = i) (bookings db)))"

text \<open>
  \<^verbatim>\<open>Partial<Booking>\<close>: a list of properties of \<^verbatim>\<open>Booking\<close>, each with a value of
  its type, in the order \<^verbatim>\<open>Object.keys\<close> enumerates them (\<^verbatim>\<open>notes\<close> is a column
  but not a property of \<^verbatim>\<open>Booking\<close>).
\<close>

datatype assignment =
    Set_id nat
  | Set_telegramUserId string
  | Set_username string
  | Set_phoneNumber string
  | Set_sessionDate string
  | Set_sessionTime string
  | Set_googleEventId string
  | Set_status status
  | Set_createdAt nat
  | Set_updatedAt nat

fun key_of :: "assignment \<Rightarrow> string" where
  "key_of (Set_id _) = ''id''"
| "key_of (Set_telegramUserId _) = ''telegramUserId''"
| "key_of (Set_username _) = ''username''"
| "key_of (Set_phoneNumber _) = ''phoneNumber''"
| "key_of (Set_sessionDate _) = ''sessionDate''"
| "key_of (Set_sessionTime _) = ''sessionTime''"
| "key_of (Set_googleEventId _) = ''googleEventId''"
| "key_of (Set_status _) = ''status''"
| "key_of (Set_createdAt _) = ''createdAt''"
| "key_of (Set_updatedAt _) = ''updatedAt''"

fun assign :: "assignment \<Rightarrow> booking \<Rightarrow> booking" where
  "assign (Set_id v) r = r\<lparr>id_col := v\<rparr>"
| "assign (Set_telegramUserId v) r = r\<lparr>telegramUserId := v\<rparr>"
| "assign (Set_username v) r = r\<lparr>username := Some v\<rparr>"
| "assign (Set_phoneNumber v) r = r\<lparr>phoneNumber := Some v\<rparr>"
| "assign (Set_sessionDate v) r = r\<lparr>sessionDate := v\<rparr>"
| "assign (Set_sessionTime v) r = r\<lparr>sessionTime := v\<rparr>"
| "assign (Set_googleEventId v) r = r\<lparr>googleEventId := Some v\<rparr>"
| "assign (Set_status v) r = r\<lparr>status := v\<rparr>"
| "assign (Set_createdAt v) r = r\<lparr>createdAt := v\<rparr>"
| "assign (Set_updatedAt v) r = r\<lparr>updatedAt := v\<rparr>"

text \<open>The object spread \<^verbatim>\<open>{ ...oldBooking, ...updates }\<close>.\<close>

definition spread :: "booking \<Rightarrow> assignment list \<Rightarrow> booking" where
  "spread r updates = fold assign updates r"

subsection \<open>The text of the UPDATE statement\<close>

text \<open>
  \<^verbatim>\<open>Object.keys(updates).map(key => `${key} = ?`).join(', ')\<close> and the template the
  result is spliced into (line breaks written as blanks).
\<close>

fun join :: "string \<Rightarrow> string list \<Rightarrow> string" where
  "join sep [] = []"
| "join sep [x] = x"
| "join sep (x # y # ys) = x @ sep @ join sep (y # ys)"

definition update_fields :: "string list \<Rightarrow> string" where
  "update_fields keys = join '', '' (map (\<lambda>key. key @ '' = ?'') keys)"

definition update_sql :: "string list \<Rightarrow> string" where
  "update_sql keys =
     ''UPDATE bookings SET '' @ update_fields keys @
     '', updatedAt = CURRENT_TIMESTAMP WHERE id = ?''"

text \<open>
  What \<^verbatim>\<open>db.prepare\<close> accepts, as far as this statement goes: the text is split into
  tokens, and the tokens must read
  \<^verbatim>\<open>UPDATE table SET column = value (, column = value)* WHERE column = ?\<close> with a value
  being \<^verbatim>\<open>?\<close> or \<^verbatim>\<open>CURRENT_TIMESTAMP\<close>.
\<close>

datatype token = Keyword string | Identifier string | Comma | Equals | Placeholder

definition ident_char :: "char \<Rightarrow> bool" where
  "ident_char c =
     (c \<in> set ''abcdefghijklmnopqrstuvwxyzABCDEFGHIJKLMNOPQRSTUVWXYZ0123456789_'')"

definition sql_keywords :: "string list" where
  "sql_keywords = [''UPDATE'', ''SET'', ''WHERE'', ''CURRENT_TIMESTAMP'']"

definition word_token :: "string \<Rightarrow> token" where
  "word_token w = (if w \<in> set sql_keywords then Keyword w else Identifier w)"

function tokenize :: "string \<Rightarrow> token list option" where
  "tokenize [] = Some []"
| "tokenize (c # cs) =
     (if c = CHR '' '' then tokenize cs
      else if c = CHR '','' then map_option ((#) Comma) (tokenize cs)
      else if c = CHR ''='' then map_option ((#) Equals) (tokenize cs)
      else if c = CHR ''?'' then map_option ((#) Placeholder) (tokenize cs)
      else if ident_char c
      then map_option ((#) (word_token (c # takeWhile ident_char cs)))
             (tokenize (dropWhile ident_char cs))
      else None)"
  by pat_completeness auto
termination
  by (relation "measure length") (auto simp: less_Suc_eq_le length_dropWhile_le)

definition is_value :: "token \<Rightarrow> bool" where
  "is_value t = (t = Placeholder \<or> t = Keyword ''CURRENT_TIMESTAMP'')"

fun parse_set_list :: "token list \<Rightarrow> (string list \<times> token list) option" where
  "parse_set_list (Identifier c # Equals # v # Comma # rest) =
     (if is_value v
      then map_option (\<lambda>(cs, r). (c # cs, r)) (parse_set_list rest)
      else None)"
| "parse_set_list (Identifier c # Equals # v # rest) =
     (if is_value v then Some ([c], rest) else None)"
| "parse_set_list _ = None"

fun parse_update :: "token list \<Rightarrow> (string \<times> string list \<times> string) option" where
  "parse_update (Keyword k1 # Identifier t # Keyword k2 # rest) =
     (if k1 = ''UPDATE'' \<and> k2 = ''SET''
      then (case parse_set_list rest of
              Some (cols, [Keyword k3, Identifier w, Equals, Placeholder]) \<Rightarrow>
                (if k3 = ''WHERE'' then Some (t, cols, w) else None)
            | _ \<Rightarrow> None)
      else None)"
| "parse_update _ = None"

definition booking_columns :: "string list" where
  "booking_columns = [''id'', ''telegramUserId'', ''username'', ''phoneNumber'', ''sessionDate'',
     ''sessionTime'', ''googleEventId'', ''status'', ''notes'', ''createdAt'', ''updatedAt'']"

text \<open>
  The engine compares the names of columns without regard to the case of the letters A to
  Z.
\<close>

definition lower :: "string \<Rightarrow> string" where
  "lower s =
     map (\<lambda>c. case map_of (zip ''ABCDEFGHIJKLMNOPQRSTUVWXYZ'' ''abcdefghijklmnopqrstuvwxyz'') c of
                Some l \<Rightarrow> l
              | None \<Rightarrow> c) s"

definition is_column :: "string \<Rightarrow> bool" where
  "is_column c = (lower c \<in> set (map lower booking_columns))"

text \<open>\<^verbatim>\<open>db.prepare\<close> of the UPDATE text: a syntax error, a missing table or an unknown
  column throws.\<close>

definition prepare_update :: "store \<Rightarrow> string list \<Rightarrow> error + unit" where
  "prepare_update db keys =
     (case Option.bind (tokenize (update_sql keys)) parse_update of
        None \<Rightarrow> Inl (SqliteError ''SQLITE_ERROR'')
      | Some (t, cols, w) \<Rightarrow>
          if t = ''bookings'' \<and> table_exists db t \<and> list_all is_column (w # cols)
          then Inr ()
          else Inl (SqliteError ''SQLITE_ERROR''))"

text \<open>
  Running the prepared UPDATE with \<^verbatim>\<open>(...values, id)\<close>: the row with the given id
  gets the assigned values and a fresh \<^verbatim>\<open>updatedAt\<close> (the rightmost assignment to a
  column is the one that counts). The row's new primary key and new slot must not be those
  of another row; with foreign keys enforced, the id of a row that history entries refer to
  must not change. A statement that fails changes nothing.
\<close>

definition updated_row :: "booking \<Rightarrow> assignment list \<Rightarrow> nat \<Rightarrow> booking" where
  "updated_row r updates now = (fold assign updates r)\<lparr>updatedAt := now\<rparr>"

definition update_rows :: "store \<Rightarrow> nat \<Rightarrow> assignment list \<Rightarrow> nat \<Rightarrow> booking list" where
  "update_rows db i updates now =
     map (\<lambda>x. if id_col x = i then updated_row x updates now else x) (bookings db)"

definition run_update :: "store \<Rightarrow> nat \<Rightarrow> assignment list \<Rightarrow> nat \<Rightarrow> error + store" where
  "run_update db i updates now =
     (case find (\<lambda>r. id_col r = i) (bookings db) of
        None \<Rightarrow> Inr db
      | Some r \<Rightarrow>
          let r' = updated_row r updates now;
              others = filter (\<lambda>x. id_col x \<noteq> i) (bookings db)
          in if id_col r' \<in> set (map id_col others)
             then Inl (SqliteError ''SQLITE_CONSTRAINT_PRIMARYKEY'')
             else if slot_of r' \<in> set (map slot_of others)
             then Inl (SqliteError ''SQLITE_CONSTRAINT_UNIQUE'')
             else if foreign_keys db \<and> id_col r' \<noteq> i
                     \<and> i \<in> set (map bookingId (booking_history db))
             then Inl (SqliteError ''SQLITE_CONSTRAINT_FOREIGNKEY'')
             else Inr (db\<lparr>bookings := update_rows db i updates now\<rparr>))"

definition updateBooking ::
  "store \<Rightarrow> nat \<Rightarrow> assignment list \<Rightarrow> string \<Rightarrow> nat \<Rightarrow> store \<times> (error + unit)" where
  "updateBooking db i updates who now =
     (case getBookingById db i of
        Inl e \<Rightarrow> (db, Inl e)
      | Inr None \<Rightarrow> (db, Inl BookingNotFound)
      | Inr (Some oldBooking) \<Rightarrow>
          (case prepare_update db (map key_of updates) of
             Inl e \<Rightarrow> (db, Inl e)
           | Inr _ \<Rightarrow>
               (case run_update db i updates now of
                  Inl e \<Rightarrow> (db, Inl e)
                | Inr db1 \<Rightarrow>
                    (case logBookingHistory db1 i ActModified (Some (RowValues oldBooking))
                            (Some (RowValues (spread oldBooking updates))) who now of
                       Inl e \<Rightarrow> (db1, Inl e)
                     | Inr db2 \<Rightarrow> (db2, Inr ())))))"

definition cancelBooking :: "store \<Rightarrow> nat \<Rightarrow> string \<Rightarrow> nat \<Rightarrow> store \<times> (error + unit)" where
  "cancelBooking db i who now =
     (case getBookingById db i of
        Inl e \<Rightarrow> (db, Inl e)
      | Inr None \<Rightarrow> (db, Inl BookingNotFound)
      | Inr (Some oldBooking) \<Rightarrow>
          (case updateBooking db i [Set_status Cancelled] who now of
             (db1, Inl e) \<Rightarrow> (db1, Inl e)
           | (db1, Inr _) \<Rightarrow>
               (case logBookingHistory db1 i ActCancelled (Some (RowValues oldBooking))
                       (Some (RowValues (oldBooking\<lparr>status := Cancelled\<rparr>))) who now of
                  Inl e \<Rightarrow> (db1, Inl e)
                | Inr db2 \<Rightarrow> (db2, Inr ()))))"

subsection \<open>Terms of the statements\<close>

text \<open>
  The history entries the three operations write, and the tokens of the UPDATE text: those
  of the assignments generated from the keys, and those of the fixed end of the template.
\<close>

definition created_entry :: "new_booking \<Rightarrow> nat \<Rightarrow> nat \<Rightarrow> history_entry" where
  "created_entry b rowid now =
     \<lparr>bookingId = rowid, action = ActCreated, oldValues = None,
      newValues = Some (InputValues b), performedBy = telegramUserId b, timestamp = now\<rparr>"

definition modified_entry :: "nat \<Rightarrow> booking \<Rightarrow> assignment list \<Rightarrow> string \<Rightarrow> nat \<Rightarrow> history_entry" where
  "modified_entry i old updates who now =
     \<lparr>bookingId = i, action = ActModified, oldValues = Some (RowValues old),
      newValues = Some (RowValues (spread old updates)), performedBy = who, timestamp = now\<rparr>"

definition cancelled_entry :: "nat \<Rightarrow> booking \<Rightarrow> string \<Rightarrow> nat \<Rightarrow> history_entry" where
  "cancelled_entry i old who now =
     \<lparr>bookingId = i, action = ActCancelled, oldValues = Some (RowValues old),
      newValues = Some (RowValues (old\<lparr>status := Cancelled\<rparr>)), performedBy = who,
      timestamp = now\<rparr>"

fun fields_tokens :: "string list \<Rightarrow> token list" where
  "fields_tokens [] = []"
| "fields_tokens [k] = [Identifier k, Equals, Placeholder]"
| "fields_tokens (k # k' # ks) =
     Identifier k # Equals # Placeholder # Comma # fields_tokens (k' # ks)"

definition tail_tokens :: "token list" where
  "tail_tokens = [Comma, Identifier ''updatedAt'', Equals, Keyword ''CURRENT_TIMESTAMP'',
     Keyword ''WHERE'', Identifier ''id'', Equals, Placeholder]"

subsection \<open>Example stores\<close>

text \<open>
  A store file just created; a migrated store without rows; the same store before
  migration 4, that is without table \<^verbatim>\<open>booking_history\<close>; a store on which only
  migration 1 has run, with its row in \<^verbatim>\<open>migrations\<close>; a booking of Monday
  2024-06-10 at 14:00; and the stores after creating that booking at time 100 and then, at
  time 200, cancelling it or moving it to 15:00.
\<close>

definition example_store_fresh :: store where
  "example_store_fresh =
     \<lparr>tables = [], indexes = [], foreign_keys = True, bookings = [], bookings_seq = 0,
      booking_history = [], migrations = []\<rparr>"

definition example_store :: store where
  "example_store =
     \<lparr>tables = [''migrations'', ''bookings'', ''auth_tokens'', ''user_preferences'',
                ''booking_history''],
      indexes = [''idx_bookings_user'', ''idx_bookings_date'', ''idx_bookings_status'',
                 ''idx_user_prefs_user'', ''idx_history_booking'', ''idx_history_timestamp''],
      foreign_keys = True, bookings = [], bookings_seq = 0, booking_history = [],
      migrations = []\<rparr>"

definition example_store_v3 :: store where
  "example_store_v3 =
     \<lparr>tables = [''migrations'', ''bookings'', ''auth_tokens'', ''user_preferences''],
      indexes = [''idx_bookings_user'', ''idx_bookings_date'', ''idx_bookings_status'',
                 ''idx_user_prefs_user''],
      foreign_keys = True, bookings = [], bookings_seq = 0, booking_history = [],
      migrations = []\<rparr>"

definition example_store_v1 :: store where
  "example_store_v1 =
     \<lparr>tables = [''migrations'', ''bookings''],
      indexes = [''idx_bookings_user'', ''idx_bookings_date'', ''idx_bookings_status''],
      foreign_keys = True, bookings = [], bookings_seq = 0, booking_history = [],
      migrations = [\<lparr>m_version = 1, m_name = ''initial_schema'', m_checksum = ''c0ffee''\<rparr>]\<rparr>"

definition example_booking :: new_booking where
  "example_booking =
     \<lparr>telegramUserId = ''42'', username = Some ''ann'', phoneNumber = Some ''ann'',
      sessionDate = ''2024-06-10'', sessionTime = ''14:00'', googleEventId = Some ''evt1'',
      status = Active, notes_col = None\<rparr>"

definition example_store_booked :: store where
  "example_store_booked =
     example_store\<lparr>bookings := [inserted_row example_booking 1 100], bookings_seq := 1,
       booking_history := [created_entry example_booking 1 100]\<rparr>"

definition example_store_cancelled :: store where
  "example_store_cancelled =
     example_store_booked\<lparr>
       bookings := [(inserted_row example_booking 1 100)\<lparr>status := Cancelled, updatedAt := 200\<rparr>],
       booking_history :=
         [created_entry example_booking 1 100,
          modified_entry 1 (inserted_row example_booking 1 100) [Set_status Cancelled] ''42'' 200,
          cancelled_entry 1 (inserted_row example_booking 1 100) ''42'' 200]\<rparr>"

definition example_store_moved :: store where
  "example_store_moved =
     example_store_booked\<lparr>
       bookings := [(inserted_row example_booking 1 100)\<lparr>sessionTime := ''15:00'', updatedAt := 200\<rparr>],
       booking_history :=
         [created_entry example_booking 1 100,
          modified_entry 1 (inserted_row example_booking 1 100) [Set_sessionTime ''15:00'']
            ''42'' 200]\<rparr>"

section \<open>Credentials of the calendar integration\<close>

text \<open>
  The credentials object of the OAuth2 client, \<^verbatim>\<open>this.auth.credentials\<close>; every property
  can be absent.
\<close>

record credentials =
  access_token :: "string option"
  refresh_token :: "string option"
  expiry_date :: "nat option"

text \<open>
  \<^verbatim>\<open>storeTokens\<close>: \<^verbatim>\<open>INSERT OR REPLACE INTO auth_tokens (id, ...) VALUES (1, ...)\<close>;
  the table holds the row with id 1 or no row. The three columns are \<^verbatim>\<open>NOT NULL\<close>, and
  \<^verbatim>\<open>undefined\<close> cannot be bound to a parameter: with an absent value the statement throws.
\<close>

record token_row =
  accessToken :: string
  refreshToken :: string
  expiryDate :: nat

record token_store =
  token_db :: store
  auth_tokens :: "token_row option"

definition storeTokens ::
  "token_store \<Rightarrow> string option \<Rightarrow> string option \<Rightarrow> nat option \<Rightarrow> error + token_store" where
  "storeTokens ts a r x =
     (if \<not> table_exists (token_db ts) ''auth_tokens'' then Inl (SqliteError ''SQLITE_ERROR'')
      else case (a, r, x) of
             (Some a', Some r', Some x') \<Rightarrow>
               Inr (ts\<lparr>auth_tokens := Some \<lparr>accessToken = a', refreshToken = r', expiryDate = x'\<rparr>\<rparr>)
           | _ \<Rightarrow> Inl (ExternalError ''TypeError''))"

subsection \<open>The OAuth2 client\<close>

text \<open>
  The service talks to the identity provider and to the calendar API through the OAuth2
  client of the Google client library; this subsection models that client as far as the
  service uses it (no API key, no refresh handler, \<^verbatim>\<open>forceRefreshOnFailure\<close> off).

  The outcome of one HTTP request is the body of a successful answer, an answer with an
  error status, or no answer at all. A request the transport repeats counts once.
\<close>

datatype 'a reply = Reply 'a | Refused nat string | NoReply string

text \<open>The body of the provider's answer to a refresh-token exchange.\<close>

record token_response =
  resp_access_token :: string
  resp_expires_in :: "nat option"

text \<open>
  The requests sent out, oldest first: the refresh-token exchange with the identity
  provider, and the four requests of the calendar API.
\<close>

datatype request = RefreshExchange | EventsList | EventsInsert | EventsPatch | EventsDelete

text \<open>
  The state of the service: the credentials of its client, its token store, the requests
  sent so far and the number of clock readings taken so far. The outside world is given by
  three functions: \<open>provider k rt\<close> is the provider's answer to an exchange of refresh
  token \<open>rt\<close> sent when \<open>k\<close> requests had been sent, \<open>api k\<close> the answer of the calendar
  API to a request sent when \<open>k\<close> requests had been sent, and \<open>getTime n\<close> the value of
  \<^verbatim>\<open>new Date().getTime()\<close> at reading number \<open>n\<close>.
\<close>

record calendar_service =
  auth_credentials :: credentials
  tokens :: token_store
  sent :: "request list"
  readings :: nat

text \<open>A text is truthy when it is present and not empty.\<close>

definition truthy :: "string option \<Rightarrow> bool" where
  "truthy s = (case s of None \<Rightarrow> False | Some t \<Rightarrow> t \<noteq> [])"

text \<open>
  \<^verbatim>\<open>refreshTokenNoCache(refreshToken)\<close>: throws before sending anything when there is no
  refresh token \<open>token\<close>; otherwise sends the exchange, and gives the new token an
  \<^verbatim>\<open>expiry_date\<close> (now plus \<^verbatim>\<open>expires_in\<close> seconds) when the answer has a non-zero
  \<^verbatim>\<open>expires_in\<close>.
\<close>

definition refreshTokenNoCache ::
  "(nat \<Rightarrow> string \<Rightarrow> token_response reply) \<Rightarrow> (nat \<Rightarrow> nat) \<Rightarrow> string option
     \<Rightarrow> calendar_service \<Rightarrow> calendar_service \<times> (error + credentials)" where
  "refreshTokenNoCache provider getTime token svc =
     (case token of
        None \<Rightarrow> (svc, Inl (ExternalError ''No refresh token is set.''))
      | Some rt \<Rightarrow>
          if rt = [] then (svc, Inl (ExternalError ''No refresh token is set.''))
          else
            let svc1 = svc\<lparr>sent := sent svc @ [RefreshExchange]\<rparr> in
            case provider (length (sent svc)) rt of
              NoReply message \<Rightarrow> (svc1, Inl (ExternalError message))
            | Refused code message \<Rightarrow> (svc1, Inl (HttpError code message))
            | Reply body \<Rightarrow>
                (case resp_expires_in body of
                   None \<Rightarrow>
                     (svc1, Inr \<lparr>access_token = Some (resp_access_token body),
                                 refresh_token = None, expiry_date = None\<rparr>)
                 | Some expires_in \<Rightarrow>
                     if expires_in = 0
                     then (svc1, Inr \<lparr>access_token = Some (resp_access_token body),
                                      refresh_token = None, expiry_date = None\<rparr>)
                     else (svc1\<lparr>readings := readings svc1 + 1\<rparr>,
                           Inr \<lparr>access_token = Some (resp_access_token body),
                                refresh_token = None,
                                expiry_date = Some (getTime (readings svc1) + expires_in * 1000)\<rparr>)))"

text \<open>
  \<^verbatim>\<open>refreshAccessToken()\<close>: exchanges the refresh token the client holds, whatever the
  expiry of its access token, keeps the refresh token and replaces the credentials.
\<close>

definition refreshAccessToken ::
  "(nat \<Rightarrow> string \<Rightarrow> token_response reply) \<Rightarrow> (nat \<Rightarrow> nat)
     \<Rightarrow> calendar_service \<Rightarrow> calendar_service \<times> (error + credentials)" where
  "refreshAccessToken provider getTime svc =
     (case refreshTokenNoCache provider getTime (refresh_token (auth_credentials svc)) svc of
        (svc1, Inl e) \<Rightarrow> (svc1, Inl e)
      | (svc1, Inr new_tokens) \<Rightarrow>
          (let c = new_tokens\<lparr>refresh_token := refresh_token (auth_credentials svc1)\<rparr>
           in (svc1\<lparr>auth_credentials := c\<rparr>, Inr c)))"

text \<open>
  \<^verbatim>\<open>isTokenExpiring()\<close>: the access token expires within
  \<^verbatim>\<open>eagerRefreshThresholdMillis\<close>, five minutes; without an expiry date, never.
\<close>

definition eagerRefreshThresholdMillis :: nat where
  "eagerRefreshThresholdMillis = 5 * 60 * 1000"

definition isTokenExpiring :: "(nat \<Rightarrow> nat) \<Rightarrow> calendar_service \<Rightarrow> calendar_service \<times> bool" where
  "isTokenExpiring getTime svc =
     (case expiry_date (auth_credentials svc) of
        None \<Rightarrow> (svc, False)
      | Some expiry \<Rightarrow>
          if expiry = 0 then (svc, False)
          else (svc\<lparr>readings := readings svc + 1\<rparr>,
                expiry \<le> getTime (readings svc) + eagerRefreshThresholdMillis))"

text \<open>
  \<^verbatim>\<open>getRequestMetadataAsync\<close>, run by the client before each request of the calendar
  API: an access token that is not about to expire is used as it is; otherwise the client
  exchanges the refresh token itself.
\<close>

definition getRequestMetadata ::
  "(nat \<Rightarrow> string \<Rightarrow> token_response reply) \<Rightarrow> (nat \<Rightarrow> nat)
     \<Rightarrow> calendar_service \<Rightarrow> calendar_service \<times> (error + unit)" where
  "getRequestMetadata provider getTime svc =
     (let thisCreds = auth_credentials svc in
      if \<not> truthy (access_token thisCreds) \<and> \<not> truthy (refresh_token thisCreds)
      then (svc, Inl (ExternalError
              ''No access, refresh token, API key or refresh handler callback is set.''))
      else
        case (if truthy (access_token thisCreds) then isTokenExpiring getTime svc
              else (svc, True)) of
          (svc1, False) \<Rightarrow> (svc1, Inr ())
        | (svc1, True) \<Rightarrow>
            (case refreshTokenNoCache provider getTime (refresh_token thisCreds) svc1 of
               (svc2, Inl (HttpError code message)) \<Rightarrow>
                 (svc2, Inl (HttpError code
                    (if code = 403 \<or> code = 404
                     then ''Could not refresh access token: '' @ message else message)))
             | (svc2, Inl e) \<Rightarrow> (svc2, Inl e)
             | (svc2, Inr new_tokens) \<Rightarrow>
                 (svc2\<lparr>auth_credentials :=
                          new_tokens\<lparr>refresh_token := refresh_token (auth_credentials svc2)\<rparr>\<rparr>,
                  Inr ())))"

text \<open>
  \<^verbatim>\<open>requestAsync\<close>: the request is sent with the access token of the client. When it
  fails with status 401 or 403 and the client holds an access token and a refresh token
  but no expiry date, the client refreshes and tries once more.
\<close>

definition send ::
  "(nat \<Rightarrow> string \<Rightarrow> token_response reply) \<Rightarrow> (nat \<Rightarrow> nat) \<Rightarrow> (nat \<Rightarrow> 'a reply) \<Rightarrow> request
     \<Rightarrow> calendar_service \<Rightarrow> calendar_service \<times> (error + 'a)" where
  "send provider getTime api rq svc =
     (case getRequestMetadata provider getTime svc of
        (svc1, Inl e) \<Rightarrow> (svc1, Inl e)
      | (svc1, Inr _) \<Rightarrow>
          (let svc2 = svc1\<lparr>sent := sent svc1 @ [rq]\<rparr> in
           case api (length (sent svc1)) of
             Reply body \<Rightarrow> (svc2, Inr body)
           | Refused code message \<Rightarrow> (svc2, Inl (HttpError code message))
           | NoReply message \<Rightarrow> (svc2, Inl (ExternalError message))))"

definition mayRequireRefresh :: "credentials \<Rightarrow> bool" where
  "mayRequireRefresh c =
     (truthy (access_token c) \<and> truthy (refresh_token c)
      \<and> (expiry_date c = None \<or> expiry_date c = Some 0))"

definition request ::
  "(nat \<Rightarrow> string \<Rightarrow> token_response reply) \<Rightarrow> (nat \<Rightarrow> nat) \<Rightarrow> (nat \<Rightarrow> 'a reply) \<Rightarrow> request
     \<Rightarrow> calendar_service \<Rightarrow> calendar_service \<times> (error + 'a)" where
  "request provider getTime api rq svc =
     (case send provider getTime api rq svc of
        (svc1, Inr body) \<Rightarrow> (svc1, Inr body)
      | (svc1, Inl (HttpError code message)) \<Rightarrow>
          if (code = 401 \<or> code = 403) \<and> mayRequireRefresh (auth_credentials svc1)
          then (case refreshAccessToken provider getTime svc1 of
                  (svc2, Inl e) \<Rightarrow> (svc2, Inl e)
                | (svc2, Inr _) \<Rightarrow> send provider getTime api rq svc2)
          else (svc1, Inl (HttpError code message))
      | (svc1, Inl e) \<Rightarrow> (svc1, Inl e))"

subsection \<open>The calendar service\<close>

text \<open>
  \<^verbatim>\<open>refreshTokenIfNeeded\<close>: \<^verbatim>\<open>this.auth.refreshAccessToken()\<close>, then
  \<^verbatim>\<open>setCredentials\<close> and \<^verbatim>\<open>storeTokens\<close>; every error is logged and replaced by the
  authentication error.
\<close>

definition refreshTokenIfNeeded ::
  "(nat \<Rightarrow> string \<Rightarrow> token_response reply) \<Rightarrow> (nat \<Rightarrow> nat)
     \<Rightarrow> calendar_service \<Rightarrow> calendar_service \<times> (error + unit)" where
  "refreshTokenIfNeeded provider getTime svc =
     (case refreshAccessToken provider getTime svc of
        (svc1, Inl e) \<Rightarrow> (svc1, Inl AuthenticationFailed)
      | (svc1, Inr c) \<Rightarrow>
          (let svc2 = svc1\<lparr>auth_credentials := c\<rparr> in
           case storeTokens (tokens svc2) (access_token c) (refresh_token c) (expiry_date c) of
             Inl e \<Rightarrow> (svc2, Inl AuthenticationFailed)
           | Inr ts \<Rightarrow> (svc2\<lparr>tokens := ts\<rparr>, Inr ())))"

text \<open>
  The shape every method of the service has: \<^verbatim>\<open>refreshTokenIfNeeded\<close>, then one call
  of the calendar API through the client; an error of either step is logged and thrown
  again.
\<close>

definition calendar_request ::
  "(nat \<Rightarrow> string \<Rightarrow> token_response reply) \<Rightarrow> (nat \<Rightarrow> nat) \<Rightarrow> (nat \<Rightarrow> 'a reply) \<Rightarrow> request
     \<Rightarrow> calendar_service \<Rightarrow> calendar_service \<times> (error + 'a)" where
  "calendar_request provider getTime api rq svc =
     (case refreshTokenIfNeeded provider getTime svc of
        (svc1, Inl e) \<Rightarrow> (svc1, Inl e)
      | (svc1, Inr _) \<Rightarrow> request provider getTime api rq svc1)"

definition createEvent ::
  "(nat \<Rightarrow> string \<Rightarrow> token_response reply) \<Rightarrow> (nat \<Rightarrow> nat) \<Rightarrow> (nat \<Rightarrow> string reply)
     \<Rightarrow> calendar_service \<Rightarrow> calendar_service \<times> (error + string)" where
  "createEvent provider getTime api svc = calendar_request provider getTime api EventsInsert svc"

definition updateEvent ::
  "(nat \<Rightarrow> string \<Rightarrow> token_response reply) \<Rightarrow> (nat \<Rightarrow> nat) \<Rightarrow> (nat \<Rightarrow> unit reply)
     \<Rightarrow> calendar_service \<Rightarrow> calendar_service \<times> (error + unit)" where
  "updateEvent provider getTime api svc = calendar_request provider getTime api EventsPatch svc"

definition deleteEvent ::
  "(nat \<Rightarrow> string \<Rightarrow> token_response reply) \<Rightarrow> (nat \<Rightarrow> nat) \<Rightarrow> (nat \<Rightarrow> unit reply)
     \<Rightarrow> calendar_service \<Rightarrow> calendar_service \<times> (error + unit)" where
  "deleteEvent provider getTime api svc = calendar_request provider getTime api EventsDelete svc"

definition listEvents ::
  "(nat \<Rightarrow> string \<Rightarrow> token_response reply) \<Rightarrow> (nat \<Rightarrow> nat) \<Rightarrow> (nat \<Rightarrow> event list reply)
     \<Rightarrow> calendar_service \<Rightarrow> calendar_service \<times> (error + event list)" where
  "listEvents provider getTime api svc = calendar_request provider getTime api EventsList svc"

text \<open>Vocabulary: a credential is expired at \<open>now\<close> when its expiry instant has passed.\<close>

definition token_expired :: "nat \<Rightarrow> credentials \<Rightarrow> bool" where
  "token_expired now c = (case expiry_date c of None \<Rightarrow> False | Some x \<Rightarrow> x \<le> now)"

text \<open>
  An example: at time 1000000 the service holds a credential that expires at 5000000, more
  than an hour later; the provider answers every exchange with an access token named after
  the position of the exchange among the requests, valid for \<open>lifetime\<close> seconds.
\<close>

definition example_credentials :: credentials where
  "example_credentials =
     \<lparr>access_token = Some ''a1'', refresh_token = Some ''r1'', expiry_date = Some 5000000\<rparr>"

definition example_service :: calendar_service where
  "example_service =
     \<lparr>auth_credentials = example_credentials,
      tokens = \<lparr>token_db = example_store,
                auth_tokens = Some \<lparr>accessToken = ''a1'', refreshToken = ''r1'',
                                    expiryDate = 5000000\<rparr>\<rparr>,
      sent = [], readings = 0\<rparr>"

definition example_provider :: "nat \<Rightarrow> nat \<Rightarrow> string \<Rightarrow> token_response reply" where
  "example_provider lifetime k rt =
     Reply \<lparr>resp_access_token = (if k = 0 then ''a2'' else ''a3''),
            resp_expires_in = Some lifetime\<rparr>"

text \<open>A service that was never authorised: its client holds no credentials.\<close>

definition example_service_unauthorised :: calendar_service where
  "example_service_unauthorised =
     \<lparr>auth_credentials = \<lparr>access_token = None, refresh_token = None, expiry_date = None\<rparr>,
      tokens = \<lparr>token_db = example_store, auth_tokens = None\<rparr>,
      sent = [], readings = 0\<rparr>"

section \<open>Migrations\<close>

text \<open>
  A forward script is a list of \<^verbatim>\<open>CREATE TABLE IF NOT EXISTS\<close> and
  \<^verbatim>\<open>CREATE INDEX IF NOT EXISTS index ON table\<close> statements, a reverse script a list of
  \<^verbatim>\<open>DROP TABLE IF EXISTS\<close> statements. Reverse scripts are only hashed here.
\<close>

datatype create_stmt = CreateTable string | CreateIndex string string

datatype drop_stmt = DropTable string

record migration =
  version :: nat
  name :: string
  up :: "create_stmt list"
  down :: "drop_stmt list"

definition getMigrations :: "migration list" where
  "getMigrations =
     [\<lparr>version = 1, name = ''initial_schema'',
        up = [CreateTable ''bookings'',
              CreateIndex ''idx_bookings_user'' ''bookings'',
              CreateIndex ''idx_bookings_date'' ''bookings'',
              CreateIndex ''idx_bookings_status'' ''bookings''],
        down = [DropTable ''bookings'']\<rparr>,
      \<lparr>version = 2, name = ''auth_tokens_table'',
        up = [CreateTable ''auth_tokens''],
        down = [DropTable ''auth_tokens'']\<rparr>,
      \<lparr>version = 3, name = ''user_preferences_table'',
        up = [CreateTable ''user_preferences'',
              CreateIndex ''idx_user_prefs_user'' ''user_preferences''],
        down = [DropTable ''user_preferences'']\<rparr>,
      \<lparr>version = 4, name = ''booking_history_table'',
        up = [CreateTable ''booking_history'',
              CreateIndex ''idx_history_booking'' ''booking_history'',
              CreateIndex ''idx_history_timestamp'' ''booking_history''],
        down = [DropTable ''booking_history'']\<rparr>]"

text \<open>\<^verbatim>\<open>initializeMigrationsTable\<close>, run by the constructor of the manager.\<close>

definition initializeMigrationsTable :: "store \<Rightarrow> store" where
  "initializeMigrationsTable db =
     (if table_exists db ''migrations'' then db
      else db\<lparr>tables := tables db @ [''migrations'']\<rparr>)"

fun exec_stmt :: "store \<Rightarrow> create_stmt \<Rightarrow> error + store" where
  "exec_stmt db (CreateTable t) =
     (if table_exists db t then Inr db else Inr (db\<lparr>tables := tables db @ [t]\<rparr>))"
| "exec_stmt db (CreateIndex i t) =
     (if \<not> table_exists db t then Inl (SqliteError ''SQLITE_ERROR'')
      else if i \<in> set (indexes db) then Inr db
      else Inr (db\<lparr>indexes := indexes db @ [i]\<rparr>))"

text \<open>\<^verbatim>\<open>db.exec(script)\<close>: the statements in order, up to the first that fails.\<close>

fun exec :: "store \<Rightarrow> create_stmt list \<Rightarrow> error + store" where
  "exec db [] = Inr db"
| "exec db (st # sts) =
     (case exec_stmt db st of Inl e \<Rightarrow> Inl e | Inr db' \<Rightarrow> exec db' sts)"

text \<open>
  \<^verbatim>\<open>calculateMigrationChecksum\<close>: \<open>sha256\<close> stands for the hex digest of the text
  \<^verbatim>\<open>migration.up + migration.down\<close>.
\<close>

definition calculateMigrationChecksum ::
  "(create_stmt list \<times> drop_stmt list \<Rightarrow> string) \<Rightarrow> migration \<Rightarrow> string" where
  "calculateMigrationChecksum sha256 m = sha256 (up m, down m)"

text \<open>\<^verbatim>\<open>INSERT INTO migrations (version, name, checksum)\<close>; \<^verbatim>\<open>version\<close> is the
  primary key.\<close>

definition record_migration :: "store \<Rightarrow> migration_row \<Rightarrow> error + store" where
  "record_migration db row =
     (if \<not> table_exists db ''migrations'' then Inl (SqliteError ''SQLITE_ERROR'')
      else if m_version row \<in> set (map m_version (migrations db))
      then Inl (SqliteError ''SQLITE_CONSTRAINT_PRIMARYKEY'')
      else Inr (db\<lparr>migrations := migrations db @ [row]\<rparr>))"

text \<open>\<^verbatim>\<open>db.transaction(fn)()\<close>: when \<open>fn\<close> throws, the store is as before the call.\<close>

definition transaction :: "(store \<Rightarrow> error + store) \<Rightarrow> store \<Rightarrow> store \<times> (error + unit)" where
  "transaction fn db = (case fn db of Inl e \<Rightarrow> (db, Inl e) | Inr db' \<Rightarrow> (db', Inr ()))"

definition apply_migration ::
  "(create_stmt list \<times> drop_stmt list \<Rightarrow> string) \<Rightarrow> migration \<Rightarrow> store \<Rightarrow> error + store" where
  "apply_migration sha256 m db =
     (case exec db (up m) of
        Inl e \<Rightarrow> Inl e
      | Inr db1 \<Rightarrow>
          record_migration db1
            \<lparr>m_version = version m, m_name = name m,
             m_checksum = calculateMigrationChecksum sha256 m\<rparr>)"

fun run_pending ::
  "(create_stmt list \<times> drop_stmt list \<Rightarrow> string) \<Rightarrow> store \<Rightarrow> migration list
     \<Rightarrow> store \<times> (error + unit)" where
  "run_pending sha256 db [] = (db, Inr ())"
| "run_pending sha256 db (m # ms) =
     (case transaction (apply_migration sha256 m) db of
        (db', Inl e) \<Rightarrow> (db', Inl e)
      | (db', Inr _) \<Rightarrow> run_pending sha256 db' ms)"

text \<open>\<^verbatim>\<open>SELECT MAX(version) FROM migrations\<close> with \<^verbatim>\<open>|| 0\<close>.\<close>

definition currentVersion :: "store \<Rightarrow> nat" where
  "currentVersion db = fold max (map m_version (migrations db)) 0"

definition pendingMigrations :: "store \<Rightarrow> migration list" where
  "pendingMigrations db = filter (\<lambda>m. version m > currentVersion db) getMigrations"

definition runMigrations ::
  "(create_stmt list \<times> drop_stmt list \<Rightarrow> string) \<Rightarrow> store \<Rightarrow> store \<times> (error + unit)" where
  "runMigrations sha256 db =
     (if \<not> table_exists db ''migrations'' then (db, Inl (SqliteError ''SQLITE_ERROR''))
      else if pendingMigrations db = [] then (db, Inr ())
      else run_pending sha256 db (pendingMigrations db))"

text \<open>The row of table \<^verbatim>\<open>migrations\<close> that records a migration.\<close>

definition migration_row_of ::
  "(create_stmt list \<times> drop_stmt list \<Rightarrow> string) \<Rightarrow> migration \<Rightarrow> migration_row" where
  "migration_row_of sha256 m =
     \<lparr>m_version = version m, m_name = name m,
      m_checksum = calculateMigrationChecksum sha256 m\<rparr>"

chapter \<open>Properties\<close>

section \<open>The slot calculator\<close>

subsection \<open>The loops\<close>

lemma set_hour_loop:
  "set (hour_loop now base busySlots hs) =
     {\<lparr>ts_date = day base, ts_time = (h, 0), ts_available = ((day base, h, 0) \<notin> busySlots)\<rparr> | h.
        h \<in> set hs \<and> \<not> isBefore (slot_at base h) now}"
  by (induction hs) (auto simp: Let_def slot_at_def format_time_def format_key_def)

lemma set_day_loop:
  "set (day_loop now tick busySlots ds) =
     (\<Union>d \<in> {d \<in> set ds. \<not> isBefore_day (add_days d (tick d)) now \<and> day_of_week (add_days d (tick d)) \<noteq> 0}.
        set (hour_loop now (add_days d (tick d)) busySlots workingHours))"
  by (induction ds) (auto simp: Let_def)

lemma getAvailableSlots_elem:
  assumes "s \<in> set (getAvailableSlots now seen tick items daysAhead)"
  obtains d h where "d < daysAhead" "h \<in> set workingHours"
    "\<not> isBefore_day (add_days d (tick d)) now"
    "day_of_week (add_days d (tick d)) \<noteq> 0"
    "\<not> isBefore (slot_at (add_days d (tick d)) h) now"
    "(day (tick d) + d, h, 0) \<notin> busy_keys seen items"
    "s = \<lparr>ts_date = day (tick d) + d, ts_time = (h, 0), ts_available = True\<rparr>"
proof -
  from assms have av: "ts_available s"
    and mem: "s \<in> set (day_loop now tick (busy_keys seen items) [0..<daysAhead])"
    by (simp_all add: getAvailableSlots_def busy_keys_def)
  from mem obtain d where d: "d < daysAhead"
      "\<not> isBefore_day (add_days d (tick d)) now" "day_of_week (add_days d (tick d)) \<noteq> 0"
    and sh: "s \<in> set (hour_loop now (add_days d (tick d)) (busy_keys seen items) workingHours)"
    unfolding set_day_loop by auto
  from sh obtain h where h: "h \<in> set workingHours"
      "\<not> isBefore (slot_at (add_days d (tick d)) h) now"
    and s: "s = \<lparr>ts_date = day (add_days d (tick d)), ts_time = (h, 0),
                 ts_available = ((day (add_days d (tick d)), h, 0) \<notin> busy_keys seen items)\<rparr>"
    unfolding set_hour_loop by auto
  from av s have nb: "(day (tick d) + d, h, 0) \<notin> busy_keys seen items"
    by (simp add: add_days_def)
  with s have "s = \<lparr>ts_date = day (tick d) + d, ts_time = (h, 0), ts_available = True\<rparr>"
    by (simp add: add_days_def)
  with d h nb that show thesis by blast
qed

lemma getAvailableSlots_intro:
  assumes "d < daysAhead" "h \<in> set workingHours"
    "\<not> isBefore_day (add_days d (tick d)) now"
    "day_of_week (add_days d (tick d)) \<noteq> 0"
    "\<not> isBefore (slot_at (add_days d (tick d)) h) now"
    "(day (tick d) + d, h, 0) \<notin> busy_keys seen items"
  shows "\<lparr>ts_date = day (tick d) + d, ts_time = (h, 0), ts_available = True\<rparr>
           \<in> set (getAvailableSlots now seen tick items daysAhead)"
proof -
  let ?s = "\<lparr>ts_date = day (tick d) + d, ts_time = (h, 0), ts_available = True\<rparr>"
  from assms have "?s \<in> set (hour_loop now (add_days d (tick d)) (busy_keys seen items) workingHours)"
    unfolding set_hour_loop by (auto simp: add_days_def)
  with assms have "?s \<in> set (day_loop now tick (busy_keys seen items) [0..<daysAhead])"
    unfolding set_day_loop by auto
  then show ?thesis
    by (simp add: getAvailableSlots_def busy_keys_def)
qed

lemma set_getAvailableTimeSlots:
  "set (getAvailableTimeSlots now seen d items) =
     {\<lparr>ts_date = d, ts_time = (h, 0), ts_available = True\<rparr> | h.
        h \<in> set workingHours \<and> \<not> isBefore (slot_at (start_of_date d) h) now
        \<and> (d, h, 0) \<notin> busy_keys seen items}"
  unfolding getAvailableTimeSlots_def Let_def set_filter set_hour_loop busy_keys_def
  by (auto simp: start_of_date_def)

lemma upt_3: "[0..<3] = [0, 1, 2::nat]"
  by (simp add: upt_rec)

subsection \<open>Returned slots and the reference instant\<close>

lemma getAvailableSlots_in_template:
  "s \<in> set (getAvailableSlots now seen tick items daysAhead) \<Longrightarrow>
     fst (ts_time s) \<in> set workingHours \<and> snd (ts_time s) = 0"
  by (erule getAvailableSlots_elem) simp

lemma getAvailableSlots_not_busy:
  "s \<in> set (getAvailableSlots now seen tick items daysAhead) \<Longrightarrow>
     (ts_date s, fst (ts_time s), snd (ts_time s)) \<notin> busy_keys seen items"
  by (erule getAvailableSlots_elem) simp

lemma getAvailableSlots_in_window:
  assumes "s \<in> set (getAvailableSlots now seen tick items daysAhead)"
    and "\<forall>d < daysAhead. day (tick d) = day now"
  shows "day now \<le> ts_date s \<and> ts_date s < day now + daysAhead"
  using assms by (elim getAvailableSlots_elem) simp

lemma getAvailableSlots_not_before_minute:
  assumes "s \<in> set (getAvailableSlots now seen (\<lambda>_. now) items daysAhead)"
  shows "\<not> isBefore (slot_start s) (now\<lparr>second := 0, millisecond := 0\<rparr>)"
  using assms
  by (elim getAvailableSlots_elem)
     (simp add: isBefore_def valueOf_def slot_start_def slot_at_def add_days_def)

lemma getAvailableSlots_started_within_minute:
  assumes "s \<in> set (getAvailableSlots now seen tick items daysAhead)"
    and "\<forall>d < daysAhead. second (tick d) < 60 \<and> millisecond (tick d) < 1000"
  shows "valueOf now < valueOf (slot_start s) + 60000"
proof -
  from assms(1) obtain d h where d: "d < daysAhead"
    and nb: "\<not> isBefore (slot_at (add_days d (tick d)) h) now"
    and s: "s = \<lparr>ts_date = day (tick d) + d, ts_time = (h, 0), ts_available = True\<rparr>"
    by (elim getAvailableSlots_elem)
  from assms(2) d have "second (tick d) < 60" "millisecond (tick d) < 1000"
    by simp_all
  then have "second (tick d) * 1000 + millisecond (tick d) < 60000"
    by simp
  moreover from nb have "valueOf now \<le> valueOf (slot_start s)
      + (second (tick d) * 1000 + millisecond (tick d))"
    by (simp add: isBefore_def valueOf_def slot_start_def slot_at_def add_days_def s)
  ultimately show ?thesis by simp
qed

text \<open>
  Claim C5 says that no slot returned by \<^verbatim>\<open>getAvailableSlots\<close> starts strictly before
  the reference instant. The lemmas above prove the rest of the claim (template hour, not
  busy, and, when the date does not change while the loop runs, inside the window) and the
  bounds the code does keep: a returned slot started less than a minute before the
  reference instant, and with a clock that stands still while the loop runs it does not
  start before the minute of the reference instant. The slot itself can have started: on
  Monday 2024-06-10 (day 19884) at 09:00:30, with the loop reading the clock a quarter of a
  second later, the slot 09:00 of that day is returned, and 09:00:00 is before 09:00:30. The
  cause is that \<^verbatim>\<open>hour(hour).minute(0)\<close> keeps the seconds of the clock reading.
\<close>

theorem getAvailableSlots_returns_started_slot:
  "\<lparr>ts_date = 19884, ts_time = (9, 0), ts_available = True\<rparr>
     \<in> set (getAvailableSlots \<lparr>day = 19884, hour = 9, minute = 0, second = 30, millisecond = 0\<rparr>
         (\<lambda>_. \<lparr>day = 19884, hour = 9, minute = 0, second = 30, millisecond = 200\<rparr>)
         (\<lambda>_. \<lparr>day = 19884, hour = 9, minute = 0, second = 30, millisecond = 250\<rparr>) [] 1)
   \<and> isBefore (slot_start \<lparr>ts_date = 19884, ts_time = (9, 0), ts_available = True\<rparr>)
         \<lparr>day = 19884, hour = 9, minute = 0, second = 30, millisecond = 0\<rparr>"
  by (simp add: getAvailableSlots_def event_starts_def workingHours_def isBefore_day_def
      add_days_def day_of_week_def weekday_def isBefore_def valueOf_def slot_at_def
      format_key_def format_time_def slot_start_def)

subsection \<open>The excluded weekday\<close>

text \<open>
  Claim C7: no slot returned by the query over a window of days (\<^verbatim>\<open>getAvailableSlots\<close>)
  falls on a Sunday, weekday 0; the single-day query (\<^verbatim>\<open>getAvailableTimeSlots\<close>) has no
  such exclusion: on a Sunday it returns every template hour that is not past and not busy.
\<close>

theorem sunday_skipped_by_window_query_only:
  "(\<forall>s \<in> set (getAvailableSlots now seen tick items daysAhead). weekday (ts_date s) \<noteq> 0) \<and>
   (weekday d = 0 \<and> h \<in> set workingHours \<and> \<not> isBefore (slot_at (start_of_date d) h) now
      \<and> (d, h, 0) \<notin> busy_keys seen items
    \<longrightarrow> \<lparr>ts_date = d, ts_time = (h, 0), ts_available = True\<rparr>
          \<in> set (getAvailableTimeSlots now seen d items))"
proof (intro conjI ballI impI)
  fix s assume "s \<in> set (getAvailableSlots now seen tick items daysAhead)"
  then show "weekday (ts_date s) \<noteq> 0"
    by (elim getAvailableSlots_elem) (simp add: day_of_week_def add_days_def)
next
  assume "weekday d = 0 \<and> h \<in> set workingHours \<and> \<not> isBefore (slot_at (start_of_date d) h) now
      \<and> (d, h, 0) \<notin> busy_keys seen items"
  then show "\<lparr>ts_date = d, ts_time = (h, 0), ts_available = True\<rparr>
          \<in> set (getAvailableTimeSlots now seen d items)"
    unfolding set_getAvailableTimeSlots by blast
qed

theorem sunday_skipped_by_window_query_only_witness:
  "weekday 19883 = 0
   \<and> \<lparr>ts_date = 19883, ts_time = (8, 0), ts_available = True\<rparr>
       \<in> set (getAvailableTimeSlots \<lparr>day = 19882, hour = 12, minute = 0, second = 0, millisecond = 0\<rparr>
            (\<lambda>_. \<lparr>day = 19882, hour = 12, minute = 0, second = 0, millisecond = 0\<rparr>) 19883 [])
   \<and> \<lparr>ts_date = 19884, ts_time = (8, 0), ts_available = True\<rparr>
       \<in> set (getAvailableSlots \<lparr>day = 19882, hour = 12, minute = 0, second = 0, millisecond = 0\<rparr>
            (\<lambda>_. \<lparr>day = 19882, hour = 12, minute = 0, second = 0, millisecond = 0\<rparr>)
            (\<lambda>_. \<lparr>day = 19882, hour = 12, minute = 0, second = 0, millisecond = 0\<rparr>) [] 3)
   \<and> weekday 19884 \<noteq> 0
   \<and> \<lparr>ts_date = 19883, ts_time = (8, 0), ts_available = True\<rparr>
       \<notin> set (getAvailableSlots \<lparr>day = 19882, hour = 12, minute = 0, second = 0, millisecond = 0\<rparr>
            (\<lambda>_. \<lparr>day = 19882, hour = 12, minute = 0, second = 0, millisecond = 0\<rparr>)
            (\<lambda>_. \<lparr>day = 19882, hour = 12, minute = 0, second = 0, millisecond = 0\<rparr>) [] 3)"
  using sunday_skipped_by_window_query_only [of
      "\<lparr>day = 19882, hour = 12, minute = 0, second = 0, millisecond = 0\<rparr>"
      "\<lambda>_. \<lparr>day = 19882, hour = 12, minute = 0, second = 0, millisecond = 0\<rparr>"
      "\<lambda>_. \<lparr>day = 19882, hour = 12, minute = 0, second = 0, millisecond = 0\<rparr>" "[]" 3 19883 8]
    getAvailableSlots_intro [of 2 3 8
      "\<lambda>_. \<lparr>day = 19882, hour = 12, minute = 0, second = 0, millisecond = 0\<rparr>"
      "\<lparr>day = 19882, hour = 12, minute = 0, second = 0, millisecond = 0\<rparr>"
      "\<lambda>_. \<lparr>day = 19882, hour = 12, minute = 0, second = 0, millisecond = 0\<rparr>" "[]"]
  by (auto simp: weekday_def workingHours_def isBefore_def valueOf_def slot_at_def
      start_of_date_def busy_keys_def event_starts_def isBefore_day_def add_days_def
      day_of_week_def)

text \<open>
  The exclusion concerns the time slots of the window query only. The day-level query
  \<^verbatim>\<open>getAvailableDaySlots\<close> has no weekday test either: asked on Saturday 2024-06-08 for
  three days, it offers Sunday 2024-06-09 (day 19883).
\<close>

lemma getAvailableDaySlots_offers_sunday:
  "map ds_date (getAvailableDaySlots
       (\<lambda>_. \<lparr>day = 19882, hour = 12, minute = 0, second = 0, millisecond = 0\<rparr>)
       (\<lambda>_. \<lparr>day = 19882, hour = 12, minute = 0, second = 0, millisecond = 0\<rparr>) [] ''60'' 3)
     = [19882, 19883, 19884]
   \<and> weekday 19883 = 0"
  by (simp add: getAvailableDaySlots_def event_starts_def add_days_def weekday_def upt_3)

subsection \<open>Days with an event\<close>

lemma set_event_starts:
  "set (event_starts seen items) =
     {moment (seen k) (start_dateTime (items ! k)) | k. k < length items}"
  by (auto simp: event_starts_def in_set_enumerate_eq image_iff)

text \<open>
  The day-level query \<^verbatim>\<open>getAvailableDaySlots\<close> keys its busy set by date alone, so the
  date on which a timed event starts is never among the returned days: a day with one event
  at 09:00 is left out although the single-day query still finds nine free hours on it.
\<close>

lemma timed_event_day_not_offered:
  assumes "e \<in> set items" and "start_dateTime e = Some t"
  shows "\<forall>s \<in> set (getAvailableDaySlots seen tick items duration daysAhead).
           ds_date s \<noteq> day t"
proof -
  from assms(1) obtain k where "k < length items" "items ! k = e"
    by (auto simp: in_set_conv_nth)
  with assms(2) have "t \<in> set (event_starts seen items)"
    unfolding set_event_starts by (auto simp: moment_def intro!: exI [of _ k])
  then have "day t \<in> set (map day (event_starts seen items))"
    by simp
  then show ?thesis
    by (auto simp: getAvailableDaySlots_def Let_def)
qed

lemma timed_event_day_not_offered_example:
  "(let now = \<lparr>day = 19883, hour = 12, minute = 0, second = 0, millisecond = 0\<rparr>;
        e = \<lparr>start_dateTime = Some \<lparr>day = 19884, hour = 9, minute = 0, second = 0, millisecond = 0\<rparr>,
             start_date = None\<rparr>
    in map ds_date (getAvailableDaySlots (\<lambda>_. now) (\<lambda>_. now) [e] ''60'' 3) = [19883, 19885]
       \<and> map ts_time (getAvailableTimeSlots now (\<lambda>_. now) 19884 [e])
           = [(8, 0), (10, 0), (11, 0), (14, 0), (15, 0), (16, 0), (17, 0), (18, 0), (19, 0)])"
  by (simp add: getAvailableDaySlots_def getAvailableTimeSlots_def event_starts_def moment_def
      add_days_def upt_3 workingHours_def isBefore_def valueOf_def slot_at_def
      start_of_date_def format_key_def format_time_def)

text \<open>
  Claim C9 says that a day is left out whenever at least one calendar event starts on it.
  The lemmas above prove this for timed events. For an all-day event it fails:
  \<^verbatim>\<open>event.start.dateTime\<close> is undefined, \<^verbatim>\<open>moment(undefined)\<close> is the current time, and
  the busy set gets the current date instead of the date of the event. Asked on Monday
  2024-06-10 (day 19884) for three days, with one all-day event on Wednesday 2024-06-12
  (day 19886), the query leaves out Monday, on which nothing starts, and offers Wednesday.
\<close>

theorem getAvailableDaySlots_offers_day_of_all_day_event:
  "map ds_date (getAvailableDaySlots
       (\<lambda>_. \<lparr>day = 19884, hour = 12, minute = 0, second = 0, millisecond = 40\<rparr>)
       (\<lambda>_. \<lparr>day = 19884, hour = 12, minute = 0, second = 0, millisecond = 50\<rparr>)
       [\<lparr>start_dateTime = None, start_date = Some 19886\<rparr>] ''60'' 3)
     = [19885, 19886]"
  by (simp add: getAvailableDaySlots_def event_starts_def moment_def add_days_def upt_3)

section \<open>The repository\<close>

subsection \<open>Inserting a booking\<close>

lemma fold_max_ge_init: "(a::nat) \<le> fold max xs a"
proof (induction xs arbitrary: a)
  case Nil
  show ?case by simp
next
  case (Cons x xs)
  have "a \<le> max x a" by simp
  also have "max x a \<le> fold max xs (max x a)" by (rule Cons.IH)
  finally show ?case by simp
qed

lemma fold_max_ge_elem: "(x::nat) \<in> set xs \<Longrightarrow> x \<le> fold max xs a"
proof (induction xs arbitrary: a)
  case Nil
  then show ?case by simp
next
  case (Cons y ys)
  show ?case
  proof (cases "x = y")
    case True
    have "x \<le> max y a" using True by simp
    also have "max y a \<le> fold max ys (max y a)" by (rule fold_max_ge_init)
    finally show ?thesis by simp
  next
    case False
    with Cons.prems have "x \<in> set ys" by simp
    then show ?thesis using Cons.IH by simp
  qed
qed

lemma next_rowid_fresh: "next_rowid db \<notin> set (map id_col (bookings db))"
proof
  assume "next_rowid db \<in> set (map id_col (bookings db))"
  then have "next_rowid db \<le> fold max (map id_col (bookings db)) (bookings_seq db)"
    by (rule fold_max_ge_elem)
  then show False by (simp add: next_rowid_def)
qed

lemma insert_booking_free:
  "slot_of b \<notin> set (map slot_of (bookings db)) \<Longrightarrow>
     insert_booking db b now =
       Inr (db\<lparr>bookings := bookings db @ [inserted_row b (next_rowid db) now],
               bookings_seq := next_rowid db\<rparr>, next_rowid db)"
  by (simp add: insert_booking_def inserted_row_def Let_def)

lemma insert_booking_taken:
  "slot_of b \<in> set (map slot_of (bookings db)) \<Longrightarrow>
     insert_booking db b now = Inl (SqliteError ''SQLITE_CONSTRAINT_UNIQUE'')"
  by (simp add: insert_booking_def)

lemma createBooking_taken:
  assumes "table_exists db ''bookings''" "slot_of b \<in> set (map slot_of (bookings db))"
  shows "createBooking db b now = (db, Inl SlotAlreadyBooked)"
  using assms
  by (simp add: createBooking_def initializeStatements_def insert_booking_taken
      createBooking_catch_def)

lemma createBooking_free:
  assumes "table_exists db ''bookings''" "table_exists db ''booking_history''"
    "slot_of b \<notin> set (map slot_of (bookings db))"
  shows "createBooking db b now =
     (db\<lparr>bookings := bookings db @ [inserted_row b (next_rowid db) now],
         bookings_seq := next_rowid db,
         booking_history := booking_history db @ [created_entry b (next_rowid db) now]\<rparr>,
      Inr (next_rowid db))"
  using assms
  by (simp add: createBooking_def initializeStatements_def insert_booking_free
      logBookingHistory_def table_exists_def inserted_row_def created_entry_def)

lemma slot_of_inserted_row [simp]: "slot_of (inserted_row b i now) = slot_of b"
  by (simp add: slot_of_def inserted_row_def)

lemma status_inserted_row [simp]: "status (inserted_row b i now) = status b"
  by (simp add: inserted_row_def)

lemma createBooking_outcome:
  assumes "createBooking db b now = (db', r)"
  shows "(r = Inr (next_rowid db)
          \<and> db' = db\<lparr>bookings := bookings db @ [inserted_row b (next_rowid db) now],
                    bookings_seq := next_rowid db,
                    booking_history := booking_history db @ [created_entry b (next_rowid db) now]\<rparr>)
       \<or> (db' = db \<and> (\<exists>e. r = Inl e))
       \<or> (r = Inl (SqliteError ''SQLITE_ERROR'')
          \<and> db' = db\<lparr>bookings := bookings db @ [inserted_row b (next_rowid db) now],
                    bookings_seq := next_rowid db\<rparr>
          \<and> \<not> table_exists db ''booking_history'')"
proof (cases "table_exists db ''bookings''")
  case False
  with assms show ?thesis
    by (auto simp: createBooking_def initializeStatements_def)
next
  case tb: True
  show ?thesis
  proof (cases "slot_of b \<in> set (map slot_of (bookings db))")
    case True
    with tb assms show ?thesis by (auto simp: createBooking_taken)
  next
    case free: False
    show ?thesis
    proof (cases "table_exists db ''booking_history''")
      case True
      with tb free assms show ?thesis by (auto simp: createBooking_free)
    next
      case False
      with tb free assms show ?thesis
        by (auto simp: createBooking_def initializeStatements_def insert_booking_free
            logBookingHistory_def table_exists_def createBooking_catch_def)
    qed
  qed
qed

subsection \<open>The generated UPDATE text\<close>

lemma tokenize_assignment:
  "tokenize (key_of a @ '' = ?'' @ rest) =
     map_option (\<lambda>ts. Identifier (key_of a) # Equals # Placeholder # ts) (tokenize rest)"
  by (cases a)
     (simp_all add: ident_char_def word_token_def sql_keywords_def option.map_comp comp_def)

lemma tokenize_separator:
  "tokenize ('', '' @ rest) = map_option ((#) Comma) (tokenize rest)"
  by simp

lemma tokenize_tail:
  "tokenize '', updatedAt = CURRENT_TIMESTAMP WHERE id = ?'' = Some tail_tokens"
  by (simp add: ident_char_def word_token_def sql_keywords_def tail_tokens_def)

lemma tokenize_fields:
  "tokenize (update_fields (map key_of updates) @ '', updatedAt = CURRENT_TIMESTAMP WHERE id = ?'')
     = Some (fields_tokens (map key_of updates) @ tail_tokens)"
proof (induction updates rule: induct_list012)
  case 1
  show ?case
    unfolding update_fields_def list.map join.simps append_Nil fields_tokens.simps
    by (rule tokenize_tail)
next
  case (2 a)
  have "tokenize (key_of a @ '' = ?'' @ '', updatedAt = CURRENT_TIMESTAMP WHERE id = ?'')
     = Some (Identifier (key_of a) # Equals # Placeholder # tail_tokens)"
    unfolding tokenize_assignment tokenize_tail by simp
  then show ?case
    unfolding update_fields_def list.map join.simps fields_tokens.simps
    by (simp del: tokenize.simps)
next
  case (3 a b updates)
  have "tokenize (key_of a @ '' = ?'' @ ('', '' @ update_fields (map key_of (b # updates))
           @ '', updatedAt = CURRENT_TIMESTAMP WHERE id = ?''))
     = Some (Identifier (key_of a) # Equals # Placeholder # Comma #
             fields_tokens (map key_of (b # updates)) @ tail_tokens)"
    unfolding tokenize_assignment tokenize_separator "3.IH"(2) by simp
  then show ?case
    by (simp add: update_fields_def del: tokenize.simps)
qed

lemma tokenize_prefix:
  "tokenize (''UPDATE bookings SET '' @ rest) =
     map_option (\<lambda>ts. Keyword ''UPDATE'' # Identifier ''bookings'' # Keyword ''SET'' # ts)
       (tokenize rest)"
  by (simp add: ident_char_def word_token_def sql_keywords_def option.map_comp comp_def)

lemma tokenize_update_sql:
  "tokenize (update_sql (map key_of updates)) =
     Some (Keyword ''UPDATE'' # Identifier ''bookings'' # Keyword ''SET'' #
           fields_tokens (map key_of updates) @ tail_tokens)"
  unfolding update_sql_def tokenize_prefix tokenize_fields by simp

lemma parse_set_list_fields:
  "ks \<noteq> [] \<Longrightarrow>
     parse_set_list (fields_tokens ks @ tail_tokens) =
       Some (ks @ [''updatedAt''], [Keyword ''WHERE'', Identifier ''id'', Equals, Placeholder])"
proof (induction ks rule: induct_list012)
  case 1
  then show ?case by simp
next
  case (2 k)
  show ?case by (simp add: tail_tokens_def is_value_def)
next
  case (3 k k' ks)
  then show ?case by (simp add: is_value_def)
qed

lemma parse_update_sql:
  "updates \<noteq> [] \<Longrightarrow>
     Option.bind (tokenize (update_sql (map key_of updates))) parse_update =
       Some (''bookings'', map key_of updates @ [''updatedAt''], ''id'')"
  by (simp add: tokenize_update_sql parse_set_list_fields del: tokenize.simps)

lemma parse_update_sql_empty:
  "Option.bind (tokenize (update_sql [])) parse_update = None"
  using tokenize_update_sql [of "[]"] by (simp add: tail_tokens_def del: tokenize.simps)

lemma key_of_column: "key_of a \<in> set booking_columns"
  by (cases a) (simp_all add: booking_columns_def)

lemma is_column_exact: "c \<in> set booking_columns \<Longrightarrow> is_column c"
  by (simp add: is_column_def)

lemma prepare_update_nonempty:
  assumes "updates \<noteq> []" "table_exists db ''bookings''"
  shows "prepare_update db (map key_of updates) = Inr ()"
proof -
  have "list_all is_column (map key_of updates)"
    using key_of_column by (simp add: list_all_iff is_column_exact)
  moreover have "is_column ''id''" "is_column ''updatedAt''"
    by (simp_all add: is_column_exact booking_columns_def)
  ultimately show ?thesis
    using assms by (simp add: prepare_update_def parse_update_sql del: tokenize.simps)
qed

lemma prepare_update_empty: "prepare_update db [] = Inl (SqliteError ''SQLITE_ERROR'')"
  by (simp add: prepare_update_def parse_update_sql_empty del: tokenize.simps)

subsection \<open>Updating a booking\<close>

lemma getBookingById_cong:
  "tables db' = tables db \<Longrightarrow> bookings db' = bookings db \<Longrightarrow>
     getBookingById db' i = getBookingById db i"
  by (simp add: getBookingById_def initializeStatements_def table_exists_def)

lemma getBookingById_Some:
  "getBookingById db i = Inr (Some old) \<Longrightarrow>
     table_exists db ''bookings'' \<and> old \<in> set (bookings db) \<and> id_col old = i"
  by (auto simp: getBookingById_def initializeStatements_def find_Some_iff in_set_conv_nth
      split: if_splits)

lemma find_id: "find (\<lambda>r. id_col r = i) rows = Some old \<Longrightarrow> id_col old = i"
  by (induction rows) (auto split: if_splits)

lemma updateBooking_Inr:
  assumes "updateBooking db i updates who now = (db', Inr u)"
  obtains old where "getBookingById db i = Inr (Some old)"
    and "db' = db\<lparr>bookings := update_rows db i updates now,
                  booking_history := booking_history db @ [modified_entry i old updates who now]\<rparr>"
    and "id_col (updated_row old updates now)
           \<notin> set (map id_col (filter (\<lambda>x. id_col x \<noteq> i) (bookings db)))"
    and "slot_of (updated_row old updates now)
           \<notin> set (map slot_of (filter (\<lambda>x. id_col x \<noteq> i) (bookings db)))"
    and "table_exists db ''bookings''" and "table_exists db ''booking_history''"
    and "prepare_update db (map key_of updates) = Inr ()"
proof -
  obtain old where g: "getBookingById db i = Inr (Some old)"
  proof (cases "getBookingById db i")
    case (Inl e)
    with assms show ?thesis by (simp add: updateBooking_def)
  next
    case (Inr ob)
    with assms that show ?thesis by (cases ob) (simp_all add: updateBooking_def)
  qed
  then have f: "find (\<lambda>r. id_col r = i) (bookings db) = Some old"
    and tb: "table_exists db ''bookings''"
    by (simp_all add: getBookingById_def initializeStatements_def split: if_splits)
  have p: "prepare_update db (map key_of updates) = Inr ()"
  proof (cases "prepare_update db (map key_of updates)")
    case (Inl e)
    with assms g show ?thesis by (simp add: updateBooking_def)
  next
    case (Inr v)
    then show ?thesis by simp
  qed
  obtain db1 where r: "run_update db i updates now = Inr db1"
  proof (cases "run_update db i updates now")
    case (Inl e)
    with assms g p show ?thesis by (simp add: updateBooking_def)
  next
    case (Inr d)
    with that show ?thesis by simp
  qed
  have l: "logBookingHistory db1 i ActModified (Some (RowValues old))
              (Some (RowValues (spread old updates))) who now = Inr db'"
  proof (cases "logBookingHistory db1 i ActModified (Some (RowValues old))
              (Some (RowValues (spread old updates))) who now")
    case (Inl e)
    with assms g p r show ?thesis by (simp add: updateBooking_def)
  next
    case (Inr d)
    with assms g p r show ?thesis by (simp add: updateBooking_def)
  qed
  from r f have db1: "db1 = db\<lparr>bookings := update_rows db i updates now\<rparr>"
    and pk: "id_col (updated_row old updates now)
           \<notin> set (map id_col (filter (\<lambda>x. id_col x \<noteq> i) (bookings db)))"
    and uq: "slot_of (updated_row old updates now)
           \<notin> set (map slot_of (filter (\<lambda>x. id_col x \<noteq> i) (bookings db)))"
    by (simp_all add: run_update_def Let_def update_rows_def split: if_splits)
  from l have th: "table_exists db1 ''booking_history''"
    and db': "db' = db1\<lparr>booking_history := booking_history db1 @ [modified_entry i old updates who now]\<rparr>"
    by (simp_all add: logBookingHistory_def modified_entry_def split: if_splits)
  from th have th': "table_exists db ''booking_history''"
    by (simp add: db1 table_exists_def)
  from db' have "db' = db\<lparr>bookings := update_rows db i updates now,
                  booking_history := booking_history db @ [modified_entry i old updates who now]\<rparr>"
    by (simp add: db1)
  with g pk uq tb th' p that show thesis by blast
qed

lemma find_update_rows:
  assumes "find (\<lambda>r. id_col r = i) rows = Some old"
    and "j \<notin> set (map id_col (filter (\<lambda>x. id_col x \<noteq> i) rows))"
    and "id_col (f old) = j"
    and "\<And>x. id_col x = i \<Longrightarrow> id_col (f x) = j"
  shows "find (\<lambda>r. id_col r = j) (map (\<lambda>x. if id_col x = i then f x else x) rows) = Some (f old)"
  using assms
proof (induction rows)
  case Nil
  then show ?case by simp
next
  case (Cons r rows)
  show ?case
  proof (cases "id_col r = i")
    case True
    with Cons.prems(1) have "r = old" by simp
    with True Cons.prems(3) show ?thesis by simp
  next
    case False
    with Cons.prems(2) have "id_col r \<noteq> j" by auto
    moreover from False Cons.prems have "find (\<lambda>r. id_col r = j)
        (map (\<lambda>x. if id_col x = i then f x else x) rows) = Some (f old)"
      by (intro Cons.IH) auto
    ultimately show ?thesis using False by simp
  qed
qed

lemma id_col_updated_row:
  "id_col x = id_col y \<Longrightarrow> id_col (updated_row x updates now) = id_col (updated_row y updates now)"
proof -
  have "id_col x = id_col y \<Longrightarrow> id_col (fold assign updates x) = id_col (fold assign updates y)"
  proof (induction updates arbitrary: x y)
    case Nil
    then show ?case by simp
  next
    case (Cons a as)
    have "id_col (assign a x) = id_col (assign a y)"
      using Cons.prems by (cases a) simp_all
    then have "id_col (fold assign as (assign a x)) = id_col (fold assign as (assign a y))"
      by (rule Cons.IH)
    then show ?case by simp
  qed
  then show "id_col x = id_col y \<Longrightarrow> id_col (updated_row x updates now) = id_col (updated_row y updates now)"
    by (simp add: updated_row_def)
qed

lemma updated_row_spread: "updated_row old updates now = (spread old updates)\<lparr>updatedAt := now\<rparr>"
  by (simp add: updated_row_def spread_def)

lemma getBookingById_after_update:
  assumes "updateBooking db i updates who now = (db', Inr u)"
    and "getBookingById db i = Inr (Some old)"
  shows "getBookingById db' (id_col (spread old updates)) = Inr (Some ((spread old updates)\<lparr>updatedAt := now\<rparr>))"
proof -
  from assms(1) obtain old' where g: "getBookingById db i = Inr (Some old')"
    and db': "db' = db\<lparr>bookings := update_rows db i updates now,
                  booking_history := booking_history db @ [modified_entry i old' updates who now]\<rparr>"
    and pk: "id_col (updated_row old' updates now)
           \<notin> set (map id_col (filter (\<lambda>x. id_col x \<noteq> i) (bookings db)))"
    and tb: "table_exists db ''bookings''"
    by (rule updateBooking_Inr)
  from g assms(2) have eq: "old' = old" by simp
  note pk = pk [unfolded eq]
  from g tb have f: "find (\<lambda>r. id_col r = i) (bookings db) = Some old"
    by (simp add: getBookingById_def initializeStatements_def eq)
  have idold: "id_col old = i" using f by (rule find_id)
  have "find (\<lambda>r. id_col r = id_col (updated_row old updates now))
          (map (\<lambda>x. if id_col x = i then updated_row x updates now else x) (bookings db))
        = Some (updated_row old updates now)"
  proof (rule find_update_rows [where f = "\<lambda>x. updated_row x updates now", OF f pk refl])
    fix x :: booking
    assume "id_col x = i"
    then have "id_col x = id_col old" by (simp add: idold)
    then show "id_col (updated_row x updates now) = id_col (updated_row old updates now)"
      by (rule id_col_updated_row)
  qed
  moreover have "table_exists db' ''bookings''"
    using tb by (simp add: db' table_exists_def)
  ultimately show ?thesis
    by (simp add: getBookingById_def initializeStatements_def db' update_rows_def updated_row_spread)
qed

lemma updateBooking_outcome:
  assumes "updateBooking db i updates who now = (db', r)"
  shows "(\<exists>old. r = Inr () \<and> getBookingById db i = Inr (Some old)
           \<and> db' = db\<lparr>bookings := update_rows db i updates now,
                  booking_history := booking_history db @ [modified_entry i old updates who now]\<rparr>)
       \<or> (db' = db \<and> (\<exists>e. r = Inl e))
       \<or> ((\<exists>e. r = Inl e) \<and> db' = db\<lparr>bookings := update_rows db i updates now\<rparr>
          \<and> (\<not> table_exists db ''booking_history''
              \<or> foreign_keys db \<and> i \<notin> set (map id_col (update_rows db i updates now))))"
proof (cases r)
  case (Inr u)
  with assms obtain old where "getBookingById db i = Inr (Some old)"
    and "db' = db\<lparr>bookings := update_rows db i updates now,
                  booking_history := booking_history db @ [modified_entry i old updates who now]\<rparr>"
    by (auto elim: updateBooking_Inr)
  with Inr show ?thesis by auto
next
  case (Inl e)
  show ?thesis
  proof (cases "getBookingById db i")
    case (Inl e')
    with assms have "db' = db" "r = Inl e'" by (simp_all add: updateBooking_def)
    then show ?thesis by simp
  next
    case g: (Inr ob)
    show ?thesis
    proof (cases ob)
      case None
      with g assms have "db' = db" "r = Inl BookingNotFound"
        by (simp_all add: updateBooking_def)
      then show ?thesis by simp
    next
      case (Some old)
      note g = g [unfolded Some]
      from g have f: "find (\<lambda>r. id_col r = i) (bookings db) = Some old"
        by (simp add: getBookingById_def initializeStatements_def split: if_splits)
      show ?thesis
      proof (cases "prepare_update db (map key_of updates)")
        case (Inl e')
        with g assms have "db' = db" "r = Inl e'" by (simp_all add: updateBooking_def)
        then show ?thesis by simp
      next
        case p: (Inr v)
        show ?thesis
        proof (cases "run_update db i updates now")
          case (Inl e')
          with g p assms have "db' = db" "r = Inl e'" by (simp_all add: updateBooking_def)
          then show ?thesis by simp
        next
          case ru: (Inr db1)
          with f have db1: "db1 = db\<lparr>bookings := update_rows db i updates now\<rparr>"
            by (simp add: run_update_def Let_def update_rows_def split: if_splits)
          show ?thesis
          proof (cases "logBookingHistory db1 i ActModified (Some (RowValues old))
                    (Some (RowValues (spread old updates))) who now")
            case (Inr db2)
            with g p ru assms Inl show ?thesis by (simp add: updateBooking_def)
          next
            case l: (Inl e')
            then have "\<not> table_exists db ''booking_history''
              \<or> foreign_keys db \<and> i \<notin> set (map id_col (update_rows db i updates now))"
              by (auto simp: logBookingHistory_def db1 table_exists_def split: if_splits)
            moreover from g p ru l assms have "db' = db1" "r = Inl e'"
              by (simp_all add: updateBooking_def)
            ultimately show ?thesis by (simp add: db1)
          qed
        qed
      qed
    qed
  qed
qed

lemma updateBooking_ok:
  assumes g: "getBookingById db i = Inr (Some old)"
    and ne: "updates \<noteq> []"
    and th: "table_exists db ''booking_history''"
    and pk: "id_col (updated_row old updates now)
               \<notin> set (map id_col (filter (\<lambda>x. id_col x \<noteq> i) (bookings db)))"
    and uq: "slot_of (updated_row old updates now)
               \<notin> set (map slot_of (filter (\<lambda>x. id_col x \<noteq> i) (bookings db)))"
    and same_id: "id_col (updated_row old updates now) = i"
  shows "updateBooking db i updates who now =
     (db\<lparr>bookings := update_rows db i updates now,
         booking_history := booking_history db @ [modified_entry i old updates who now]\<rparr>,
      Inr ())"
proof -
  from g have tb: "table_exists db ''bookings''" and mem: "old \<in> set (bookings db)"
    and idold: "id_col old = i"
    by (simp_all add: getBookingById_Some)
  from g tb have f: "find (\<lambda>r. id_col r = i) (bookings db) = Some old"
    by (simp add: getBookingById_def initializeStatements_def)
  have p: "prepare_update db (map key_of updates) = Inr ()"
    using ne tb by (rule prepare_update_nonempty)
  have r: "run_update db i updates now = Inr (db\<lparr>bookings := update_rows db i updates now\<rparr>)"
    using f pk uq same_id by (simp add: run_update_def Let_def update_rows_def)
  have "updated_row old updates now \<in> set (update_rows db i updates now)"
    using mem idold by (force simp: update_rows_def)
  then have "i \<in> set (map id_col (update_rows db i updates now))"
    using same_id by force
  then have l: "logBookingHistory (db\<lparr>bookings := update_rows db i updates now\<rparr>) i ActModified
       (Some (RowValues old)) (Some (RowValues (spread old updates))) who now
     = Inr (db\<lparr>bookings := update_rows db i updates now,
         booking_history := booking_history db @ [modified_entry i old updates who now]\<rparr>)"
    using th by (simp add: logBookingHistory_def table_exists_def modified_entry_def)
  show ?thesis
    by (simp add: updateBooking_def g p r l)
qed

subsection \<open>Cancelling a booking\<close>

lemma cancelBooking_Inr:
  assumes "cancelBooking db i who now = (db', Inr u)"
  obtains old where "getBookingById db i = Inr (Some old)"
    and "db' = db\<lparr>bookings := update_rows db i [Set_status Cancelled] now,
                  booking_history := booking_history db @
                    [modified_entry i old [Set_status Cancelled] who now,
                     cancelled_entry i old who now]\<rparr>"
    and "updateBooking db i [Set_status Cancelled] who now =
           (db\<lparr>bookings := update_rows db i [Set_status Cancelled] now,
               booking_history := booking_history db @
                 [modified_entry i old [Set_status Cancelled] who now]\<rparr>, Inr ())"
proof -
  obtain old where g: "getBookingById db i = Inr (Some old)"
  proof (cases "getBookingById db i")
    case (Inl e)
    with assms show ?thesis by (simp add: cancelBooking_def)
  next
    case (Inr ob)
    with assms that show ?thesis by (cases ob) (simp_all add: cancelBooking_def)
  qed
  obtain db1 r1 where u: "updateBooking db i [Set_status Cancelled] who now = (db1, r1)"
    by (cases "updateBooking db i [Set_status Cancelled] who now")
  have r1: "r1 = Inr ()"
  proof (cases r1)
    case (Inl e)
    with assms g u show ?thesis by (simp add: cancelBooking_def)
  next
    case (Inr v)
    then show ?thesis by simp
  qed
  from u r1 obtain old' where g': "getBookingById db i = Inr (Some old')"
    and db1: "db1 = db\<lparr>bookings := update_rows db i [Set_status Cancelled] now,
                  booking_history := booking_history db @
                    [modified_entry i old' [Set_status Cancelled] who now]\<rparr>"
    by (auto elim: updateBooking_Inr)
  from g g' have eq: "old' = old" by simp
  have l: "logBookingHistory db1 i ActCancelled (Some (RowValues old))
              (Some (RowValues (old\<lparr>status := Cancelled\<rparr>))) who now = Inr db'"
  proof (cases "logBookingHistory db1 i ActCancelled (Some (RowValues old))
              (Some (RowValues (old\<lparr>status := Cancelled\<rparr>))) who now")
    case (Inl e)
    with assms g u r1 show ?thesis by (simp add: cancelBooking_def)
  next
    case (Inr d)
    with assms g u r1 show ?thesis by (simp add: cancelBooking_def)
  qed
  then have "db' = db1\<lparr>booking_history := booking_history db1 @ [cancelled_entry i old who now]\<rparr>"
    by (simp add: logBookingHistory_def cancelled_entry_def split: if_splits)
  then have "db' = db\<lparr>bookings := update_rows db i [Set_status Cancelled] now,
                  booking_history := booking_history db @
                    [modified_entry i old [Set_status Cancelled] who now,
                     cancelled_entry i old who now]\<rparr>"
    by (simp add: db1 eq)
  with g u r1 db1 eq that show thesis by simp
qed

lemma slot_of_cancelled_row [simp]:
  "slot_of (updated_row x [Set_status Cancelled] now) = slot_of x"
  by (simp add: updated_row_def slot_of_def)

lemma slots_update_rows_cancel:
  "map slot_of (update_rows db i [Set_status Cancelled] now) = map slot_of (bookings db)"
  by (simp add: update_rows_def comp_def if_distrib [of slot_of] cong: if_cong)

lemma id_col_cancelled_row [simp]:
  "id_col (updated_row x [Set_status Cancelled] now) = id_col x"
  by (simp add: updated_row_def)

lemma ids_update_rows_cancel:
  "map id_col (update_rows db i [Set_status Cancelled] now) = map id_col (bookings db)"
  by (simp add: update_rows_def comp_def if_distrib [of id_col] cong: if_cong)

lemma spread_cancel: "spread old [Set_status Cancelled] = old\<lparr>status := Cancelled\<rparr>"
  by (simp add: spread_def)

lemma getBookingById_after_cancel:
  assumes "cancelBooking db i who now = (db', Inr u)"
    and "getBookingById db i = Inr (Some old)"
  shows "getBookingById db' i = Inr (Some (old\<lparr>status := Cancelled, updatedAt := now\<rparr>))"
proof -
  from assms(1) obtain old' where g: "getBookingById db i = Inr (Some old')"
    and db': "db' = db\<lparr>bookings := update_rows db i [Set_status Cancelled] now,
                  booking_history := booking_history db @
                    [modified_entry i old' [Set_status Cancelled] who now,
                     cancelled_entry i old' who now]\<rparr>"
    and u: "updateBooking db i [Set_status Cancelled] who now =
           (db\<lparr>bookings := update_rows db i [Set_status Cancelled] now,
               booking_history := booking_history db @
                 [modified_entry i old' [Set_status Cancelled] who now]\<rparr>, Inr ())"
    by (rule cancelBooking_Inr)
  from assms(2) have idold: "id_col old = i"
    by (simp add: getBookingById_Some)
  have "getBookingById (fst (updateBooking db i [Set_status Cancelled] who now))
          (id_col (spread old [Set_status Cancelled]))
        = Inr (Some ((spread old [Set_status Cancelled])\<lparr>updatedAt := now\<rparr>))"
    using u assms(2) by (intro getBookingById_after_update [where u = "()"]) simp_all
  then have "getBookingById (db\<lparr>bookings := update_rows db i [Set_status Cancelled] now,
               booking_history := booking_history db @
                 [modified_entry i old' [Set_status Cancelled] who now]\<rparr>) i
        = Inr (Some (old\<lparr>status := Cancelled, updatedAt := now\<rparr>))"
    by (simp add: u spread_cancel idold)
  moreover have "getBookingById db' i =
      getBookingById (db\<lparr>bookings := update_rows db i [Set_status Cancelled] now,
               booking_history := booking_history db @
                 [modified_entry i old' [Set_status Cancelled] who now]\<rparr>) i"
    by (rule getBookingById_cong) (simp_all add: db')
  ultimately show ?thesis by simp
qed

lemma slots_after_cancel:
  assumes "cancelBooking db i who now = (db', Inr u)"
  shows "map slot_of (bookings db') = map slot_of (bookings db)"
    and "tables db' = tables db"
proof -
  from assms obtain old where
    db': "db' = db\<lparr>bookings := update_rows db i [Set_status Cancelled] now,
                  booking_history := booking_history db @
                    [modified_entry i old [Set_status Cancelled] who now,
                     cancelled_entry i old who now]\<rparr>"
    by (rule cancelBooking_Inr)
  show "map slot_of (bookings db') = map slot_of (bookings db)"
    by (simp add: db' slots_update_rows_cancel)
  show "tables db' = tables db"
    by (simp add: db')
qed

lemma cancelBooking_outcome:
  assumes "cancelBooking db i who now = (db', r)"
  shows "(\<exists>old. r = Inr () \<and> getBookingById db i = Inr (Some old)
           \<and> db' = db\<lparr>bookings := update_rows db i [Set_status Cancelled] now,
                  booking_history := booking_history db @
                    [modified_entry i old [Set_status Cancelled] who now,
                     cancelled_entry i old who now]\<rparr>)
       \<or> (db' = db \<and> (\<exists>e. r = Inl e))
       \<or> ((\<exists>e. r = Inl e) \<and> db' = db\<lparr>bookings := update_rows db i [Set_status Cancelled] now\<rparr>
          \<and> \<not> table_exists db ''booking_history'')"
proof (cases r)
  case (Inr u)
  with assms obtain old where "getBookingById db i = Inr (Some old)"
    and "db' = db\<lparr>bookings := update_rows db i [Set_status Cancelled] now,
                  booking_history := booking_history db @
                    [modified_entry i old [Set_status Cancelled] who now,
                     cancelled_entry i old who now]\<rparr>"
    by (auto elim: cancelBooking_Inr)
  with Inr show ?thesis by auto
next
  case (Inl e)
  show ?thesis
  proof (cases "getBookingById db i")
    case (Inl e')
    with assms have "db' = db" "r = Inl e'" by (simp_all add: cancelBooking_def)
    then show ?thesis by simp
  next
    case g: (Inr ob)
    show ?thesis
    proof (cases ob)
      case None
      with g assms have "db' = db" "r = Inl BookingNotFound"
        by (simp_all add: cancelBooking_def)
      then show ?thesis by simp
    next
      case (Some old)
      note g = g [unfolded Some]
      from g have mem: "old \<in> set (bookings db)" and idold: "id_col old = i"
        by (simp_all add: getBookingById_Some)
      then have fk: "i \<in> set (map id_col (update_rows db i [Set_status Cancelled] now))"
        unfolding ids_update_rows_cancel by auto
      obtain db1 r1 where u: "updateBooking db i [Set_status Cancelled] who now = (db1, r1)"
        by (cases "updateBooking db i [Set_status Cancelled] who now")
      show ?thesis
      proof (cases r1)
        case r1: (Inl e1)
        with g u assms have "db' = db1" "r = Inl e1"
          by (simp_all add: cancelBooking_def)
        with updateBooking_outcome [OF u] r1 fk show ?thesis by auto
      next
        case r1: (Inr u1)
        with u obtain old' where g': "getBookingById db i = Inr (Some old')"
          and db1: "db1 = db\<lparr>bookings := update_rows db i [Set_status Cancelled] now,
                  booking_history := booking_history db @
                    [modified_entry i old' [Set_status Cancelled] who now]\<rparr>"
          and th: "table_exists db ''booking_history''"
          by (auto elim: updateBooking_Inr)
        have "logBookingHistory db1 i ActCancelled (Some (RowValues old))
                (Some (RowValues (old\<lparr>status := Cancelled\<rparr>))) who now
              = Inr (db1\<lparr>booking_history := booking_history db1 @ [cancelled_entry i old who now]\<rparr>)"
          using th fk by (simp add: logBookingHistory_def db1 table_exists_def cancelled_entry_def)
        with g u r1 assms Inl show ?thesis by (simp add: cancelBooking_def)
      qed
    qed
  qed
qed

lemma cancelBooking_ok:
  assumes g: "getBookingById db i = Inr (Some old)"
    and th: "table_exists db ''booking_history''"
    and uq: "slot_of old \<notin> set (map slot_of (filter (\<lambda>x. id_col x \<noteq> i) (bookings db)))"
  shows "cancelBooking db i who now =
     (db\<lparr>bookings := update_rows db i [Set_status Cancelled] now,
         booking_history := booking_history db @
           [modified_entry i old [Set_status Cancelled] who now,
            cancelled_entry i old who now]\<rparr>,
      Inr ())"
proof -
  from g have mem: "old \<in> set (bookings db)" and idold: "id_col old = i"
    by (simp_all add: getBookingById_Some)
  have u: "updateBooking db i [Set_status Cancelled] who now =
     (db\<lparr>bookings := update_rows db i [Set_status Cancelled] now,
         booking_history := booking_history db @
           [modified_entry i old [Set_status Cancelled] who now]\<rparr>, Inr ())"
    using g _ th
  proof (rule updateBooking_ok)
    show "id_col (updated_row old [Set_status Cancelled] now)
            \<notin> set (map id_col (filter (\<lambda>x. id_col x \<noteq> i) (bookings db)))"
      by (auto simp: idold)
    show "slot_of (updated_row old [Set_status Cancelled] now)
            \<notin> set (map slot_of (filter (\<lambda>x. id_col x \<noteq> i) (bookings db)))"
      using uq by simp
  qed (simp_all add: idold)
  have "i \<in> set (map id_col (update_rows db i [Set_status Cancelled] now))"
    unfolding ids_update_rows_cancel using mem idold by auto
  then have "logBookingHistory (db\<lparr>bookings := update_rows db i [Set_status Cancelled] now,
         booking_history := booking_history db @
           [modified_entry i old [Set_status Cancelled] who now]\<rparr>) i ActCancelled
       (Some (RowValues old)) (Some (RowValues (old\<lparr>status := Cancelled\<rparr>))) who now
     = Inr (db\<lparr>bookings := update_rows db i [Set_status Cancelled] now,
         booking_history := booking_history db @
           [modified_entry i old [Set_status Cancelled] who now,
            cancelled_entry i old who now]\<rparr>)"
    using th by (simp add: logBookingHistory_def table_exists_def cancelled_entry_def)
  then show ?thesis
    by (simp add: cancelBooking_def g u)
qed

subsection \<open>The example stores\<close>

lemma createBooking_example:
  "createBooking example_store example_booking 100 = (example_store_booked, Inr 1)"
proof -
  have "next_rowid example_store = 1"
    by (simp add: next_rowid_def example_store_def)
  moreover have "table_exists example_store ''bookings''"
    "table_exists example_store ''booking_history''"
    by (simp_all add: table_exists_def example_store_def)
  moreover have "slot_of example_booking \<notin> set (map slot_of (bookings example_store))"
    by (simp add: example_store_def)
  ultimately show ?thesis
    using createBooking_free [of example_store example_booking 100]
    by (simp add: example_store_booked_def example_store_def)
qed


lemma getBookingById_example:
  "getBookingById example_store_booked 1 = Inr (Some (inserted_row example_booking 1 100))"
  by (simp add: getBookingById_def initializeStatements_def table_exists_def
      example_store_booked_def example_store_def inserted_row_def)

lemma updateBooking_example:
  "updateBooking example_store_booked 1 [Set_sessionTime ''15:00''] ''42'' 200
     = (example_store_moved, Inr ())"
proof -
  have "updateBooking example_store_booked 1 [Set_sessionTime ''15:00''] ''42'' 200 =
     (example_store_booked\<lparr>
         bookings := update_rows example_store_booked 1 [Set_sessionTime ''15:00''] 200,
         booking_history := booking_history example_store_booked @
           [modified_entry 1 (inserted_row example_booking 1 100) [Set_sessionTime ''15:00'']
              ''42'' 200]\<rparr>,
      Inr ())"
    by (rule updateBooking_ok [OF getBookingById_example])
       (simp_all add: table_exists_def example_store_booked_def example_store_def
          updated_row_def inserted_row_def)
  moreover have "update_rows example_store_booked 1 [Set_sessionTime ''15:00''] 200
      = [(inserted_row example_booking 1 100)\<lparr>sessionTime := ''15:00'', updatedAt := 200\<rparr>]"
    by (simp add: update_rows_def example_store_booked_def updated_row_def inserted_row_def)
  ultimately show ?thesis
    by (simp add: example_store_moved_def example_store_booked_def)
qed

lemma cancelBooking_example:
  "cancelBooking example_store_booked 1 ''42'' 200 = (example_store_cancelled, Inr ())"
proof -
  have "table_exists example_store_booked ''booking_history''"
    by (simp add: table_exists_def example_store_booked_def example_store_def)
  moreover have "slot_of (inserted_row example_booking 1 100)
      \<notin> set (map slot_of (filter (\<lambda>x. id_col x \<noteq> 1) (bookings example_store_booked)))"
    by (simp add: example_store_booked_def inserted_row_def)
  ultimately have "cancelBooking example_store_booked 1 ''42'' 200 =
     (example_store_booked\<lparr>bookings := update_rows example_store_booked 1 [Set_status Cancelled] 200,
         booking_history := booking_history example_store_booked @
           [modified_entry 1 (inserted_row example_booking 1 100) [Set_status Cancelled] ''42'' 200,
            cancelled_entry 1 (inserted_row example_booking 1 100) ''42'' 200]\<rparr>,
      Inr ())"
    by (rule cancelBooking_ok [OF getBookingById_example])
  moreover have "update_rows example_store_booked 1 [Set_status Cancelled] 200
      = [(inserted_row example_booking 1 100)\<lparr>status := Cancelled, updatedAt := 200\<rparr>]"
    by (simp add: update_rows_def example_store_booked_def updated_row_def inserted_row_def)
  ultimately show ?thesis
    by (simp add: example_store_cancelled_def example_store_booked_def)
qed

subsection \<open>Rows stay distinct\<close>

text \<open>
  The primary key and the constraint \<^verbatim>\<open>unique_session\<close> are invariants of the table: when
  the ids and the pairs of date and time of the rows are distinct, they are distinct after
  each of \<^verbatim>\<open>createBooking\<close>, \<^verbatim>\<open>updateBooking\<close> and \<^verbatim>\<open>cancelBooking\<close>, whether the call
  returns or throws.
\<close>

lemma createBooking_keeps_slots_distinct:
  assumes "distinct (map slot_of (bookings db))"
  shows "distinct (map slot_of (bookings (fst (createBooking db b now))))"
proof -
  obtain db' r where c: "createBooking db b now = (db', r)"
    by (cases "createBooking db b now")
  consider (missing) "\<not> table_exists db ''bookings''"
    | (taken) "table_exists db ''bookings''" "slot_of b \<in> set (map slot_of (bookings db))"
    | (free) "table_exists db ''bookings''" "slot_of b \<notin> set (map slot_of (bookings db))"
    by blast
  then show ?thesis
  proof cases
    case missing
    with c have "db' = db"
      by (simp add: createBooking_def initializeStatements_def)
    with assms show ?thesis by (simp add: c)
  next
    case taken
    with c have "db' = db" by (simp add: createBooking_taken)
    with assms show ?thesis by (simp add: c)
  next
    case free
    from createBooking_outcome [OF c]
    have "bookings db' = bookings db \<or>
          bookings db' = bookings db @ [inserted_row b (next_rowid db) now]"
      by auto
    with free assms show ?thesis by (auto simp: c)
  qed
qed

lemma createBooking_keeps_ids_distinct:
  assumes "distinct (map id_col (bookings db))"
  shows "distinct (map id_col (bookings (fst (createBooking db b now))))"
proof -
  obtain db' r where c: "createBooking db b now = (db', r)"
    by (cases "createBooking db b now")
  from createBooking_outcome [OF c]
  have "bookings db' = bookings db \<or>
        bookings db' = bookings db @ [inserted_row b (next_rowid db) now]"
    by auto
  moreover have "id_col (inserted_row b (next_rowid db) now) \<notin> set (map id_col (bookings db))"
    using next_rowid_fresh [of db] by (simp add: inserted_row_def)
  ultimately show ?thesis using assms by (auto simp: c)
qed

lemma distinct_map_update_one:
  assumes "distinct (map k rows)" and "distinct (map g rows)"
    and "g (f old) \<notin> set (map g (filter (\<lambda>x. k x \<noteq> i) rows))"
  shows "distinct (map g (map (\<lambda>x. if k x = i then f old else x) rows))"
  using assms
proof (induction rows)
  case Nil
  then show ?case by simp
next
  case (Cons r rows)
  show ?case
  proof (cases "k r = i")
    case True
    from Cons.prems(1) True have none: "\<forall>x \<in> set rows. k x \<noteq> i"
      by (auto simp: image_iff)
    then have same: "map (\<lambda>x. if k x = i then f old else x) rows = rows"
      by (induction rows) auto
    from none have "filter (\<lambda>x. k x \<noteq> i) rows = rows"
      by (induction rows) auto
    with Cons.prems(3) True have "g (f old) \<notin> set (map g rows)" by simp
    with Cons.prems(2) True show ?thesis by (simp add: same)
  next
    case False
    from Cons.prems False have ih: "distinct (map g (map (\<lambda>x. if k x = i then f old else x) rows))"
      by (intro Cons.IH) auto
    have "g r \<notin> set (map g (map (\<lambda>x. if k x = i then f old else x) rows))"
    proof
      assume "g r \<in> set (map g (map (\<lambda>x. if k x = i then f old else x) rows))"
      then obtain x where x: "x \<in> set rows" "g r = g (if k x = i then f old else x)"
        by auto
      show False
      proof (cases "k x = i")
        case True
        with x have "g (f old) = g r" by simp
        with Cons.prems(3) False show False by auto
      next
        case False
        with x have "g r = g x" by simp
        with x(1) Cons.prems(2) show False by (auto simp: image_iff)
      qed
    qed
    with ih False show ?thesis by simp
  qed
qed

lemma update_rows_one:
  assumes "find (\<lambda>r. id_col r = i) (bookings db) = Some old"
    and "distinct (map id_col (bookings db))"
  shows "update_rows db i updates now =
     map (\<lambda>x. if id_col x = i then updated_row old updates now else x) (bookings db)"
proof -
  have "x = old" if "x \<in> set (bookings db)" "id_col x = i" for x
  proof -
    from assms(1) have "old \<in> set (bookings db)" "id_col old = i"
      by (auto simp: find_Some_iff in_set_conv_nth)
    with that assms(2) show ?thesis
      by (metis distinct_map inj_onD)
  qed
  then show ?thesis
    by (auto simp: update_rows_def)
qed

lemma updateBooking_keeps_rows_distinct:
  assumes "distinct (map id_col (bookings db))" and "distinct (map slot_of (bookings db))"
  shows "distinct (map id_col (bookings (fst (updateBooking db i updates who now))))
     \<and> distinct (map slot_of (bookings (fst (updateBooking db i updates who now))))"
proof -
  obtain db' r where u: "updateBooking db i updates who now = (db', r)"
    by (cases "updateBooking db i updates who now")
  show ?thesis
  proof (cases "bookings db' = bookings db")
    case True
    with assms show ?thesis by (simp add: u)
  next
    case False
    with updateBooking_outcome [OF u]
    have b: "bookings db' = update_rows db i updates now"
      by auto
    from False u obtain old where g: "getBookingById db i = Inr (Some old)"
      by (auto simp: updateBooking_def split: sum.splits option.splits)
    then have f: "find (\<lambda>r. id_col r = i) (bookings db) = Some old"
      by (simp add: getBookingById_def initializeStatements_def split: if_splits)
    from False u g obtain db1 where ru: "run_update db i updates now = Inr db1"
      by (auto simp: updateBooking_def split: sum.splits)
    with f have pk: "id_col (updated_row old updates now)
           \<notin> set (map id_col (filter (\<lambda>x. id_col x \<noteq> i) (bookings db)))"
      and uq: "slot_of (updated_row old updates now)
           \<notin> set (map slot_of (filter (\<lambda>x. id_col x \<noteq> i) (bookings db)))"
      by (simp_all add: run_update_def Let_def split: if_splits)
    have rows: "update_rows db i updates now =
       map (\<lambda>x. if id_col x = i then updated_row old updates now else x) (bookings db)"
      using f assms(1) by (rule update_rows_one)
    have "distinct (map id_col (update_rows db i updates now))"
      unfolding rows
      using assms(1) assms(1) pk
      by (rule distinct_map_update_one [where f = "\<lambda>x. updated_row x updates now"])
    moreover have "distinct (map slot_of (update_rows db i updates now))"
      unfolding rows
      using assms(1) assms(2) uq
      by (rule distinct_map_update_one [where f = "\<lambda>x. updated_row x updates now"])
    ultimately show ?thesis by (simp add: u b)
  qed
qed

lemma cancelBooking_keeps_rows_distinct:
  assumes "distinct (map id_col (bookings db))" and "distinct (map slot_of (bookings db))"
  shows "distinct (map id_col (bookings (fst (cancelBooking db i who now))))
     \<and> distinct (map slot_of (bookings (fst (cancelBooking db i who now))))"
proof -
  obtain db' r where k: "cancelBooking db i who now = (db', r)"
    by (cases "cancelBooking db i who now")
  from cancelBooking_outcome [OF k]
  have "bookings db' = bookings db \<or> bookings db' = update_rows db i [Set_status Cancelled] now"
    by auto
  then have "map id_col (bookings db') = map id_col (bookings db)"
    and "map slot_of (bookings db') = map slot_of (bookings db)"
    by (auto simp: ids_update_rows_cancel slots_update_rows_cancel)
  with assms show ?thesis by (simp add: k)
qed

subsection \<open>Data change and history entry\<close>




subsection \<open>Uniqueness of the slot\<close>

text \<open>
  Claim C2, as the code has it: the constraint \<^verbatim>\<open>unique_session\<close> covers every row,
  whatever its status. After \<^verbatim>\<open>cancelBooking\<close> succeeds the row is kept, has status
  cancelled and still holds its date and time, and \<^verbatim>\<open>createBooking\<close> for that date and
  time fails with \<^verbatim>\<open>This time slot is already booked\<close>. When the pairs of date and time
  of the rows were distinct before the cancellation, they are distinct after any later
  \<^verbatim>\<open>createBooking\<close>, the cancelled row included.
\<close>

theorem cancelled_booking_keeps_its_slot:
  assumes "cancelBooking db i who now = (db', Inr ())"
    and "getBookingById db i = Inr (Some old)"
    and "slot_of b = slot_of old"
  shows "getBookingById db' i = Inr (Some (old\<lparr>status := Cancelled, updatedAt := now\<rparr>))
     \<and> map slot_of (bookings db') = map slot_of (bookings db)
     \<and> createBooking db' b now' = (db', Inl SlotAlreadyBooked)
     \<and> (distinct (map slot_of (bookings db)) \<longrightarrow>
          distinct (map slot_of (bookings (fst (createBooking db' b' now')))))"
proof -
  from assms(2) have tb: "table_exists db ''bookings''" and mem: "old \<in> set (bookings db)"
    by (simp_all add: getBookingById_Some)
  have slots: "map slot_of (bookings db') = map slot_of (bookings db)"
    using assms(1) by (rule slots_after_cancel)
  have tb': "table_exists db' ''bookings''"
    using tb slots_after_cancel(2) [OF assms(1)] by (simp add: table_exists_def)
  have "slot_of b \<in> set (map slot_of (bookings db'))"
    unfolding slots using mem assms(3) by (simp add: image_iff) blast
  with tb' have "createBooking db' b now' = (db', Inl SlotAlreadyBooked)"
    by (rule createBooking_taken)
  moreover have "distinct (map slot_of (bookings (fst (createBooking db' b' now'))))"
    if "distinct (map slot_of (bookings db))"
    using that by (intro createBooking_keeps_slots_distinct) (simp add: slots)
  ultimately show ?thesis
    using getBookingById_after_cancel [OF assms(1) assms(2)] slots by simp
qed

theorem cancelled_booking_keeps_its_slot_witness:
  "cancelBooking example_store_booked 1 ''42'' 200 = (example_store_cancelled, Inr ())
   \<and> getBookingById example_store_cancelled 1
       = Inr (Some ((inserted_row example_booking 1 100)\<lparr>status := Cancelled, updatedAt := 200\<rparr>))
   \<and> map slot_of (bookings example_store_cancelled) = [(''2024-06-10'', ''14:00'')]
   \<and> createBooking example_store_cancelled (example_booking\<lparr>telegramUserId := ''77''\<rparr>) 300
       = (example_store_cancelled, Inl SlotAlreadyBooked)
   \<and> distinct (map slot_of (bookings (fst (createBooking example_store_cancelled
         (example_booking\<lparr>sessionTime := ''15:00''\<rparr>) 300))))"
proof -
  have same: "slot_of (example_booking\<lparr>telegramUserId := ''77''\<rparr>)
      = slot_of (inserted_row example_booking 1 100)"
    by (simp add: slot_of_def inserted_row_def)
  have "slot_of example_booking = (''2024-06-10'', ''14:00'')"
    by (simp add: slot_of_def example_booking_def)
  then have "map slot_of (bookings example_store_booked) = [(''2024-06-10'', ''14:00'')]"
    by (simp add: example_store_booked_def)
  with cancelled_booking_keeps_its_slot
    [OF cancelBooking_example getBookingById_example same,
      where now' = 300 and b' = "example_booking\<lparr>sessionTime := ''15:00''\<rparr>"]
    cancelBooking_example
  show ?thesis by simp
qed

text \<open>
  The claim as written fails: the booking of 2024-06-10 14:00 is created and cancelled, only
  a cancelled row is left, and creating a booking for that slot again is refused.
\<close>

theorem cancelled_slot_cannot_be_booked_again:
  "createBooking example_store example_booking 100 = (example_store_booked, Inr 1)
   \<and> cancelBooking example_store_booked 1 ''42'' 200 = (example_store_cancelled, Inr ())
   \<and> map status (bookings example_store_cancelled) = [Cancelled]
   \<and> createBooking example_store_cancelled example_booking 300
       = (example_store_cancelled, Inl SlotAlreadyBooked)"
proof -
  have "table_exists example_store_cancelled ''bookings''"
    by (simp add: table_exists_def example_store_cancelled_def example_store_booked_def
        example_store_def)
  moreover have "slot_of example_booking \<in> set (map slot_of (bookings example_store_cancelled))"
    by (simp add: example_store_cancelled_def slot_of_def inserted_row_def)
  ultimately have "createBooking example_store_cancelled example_booking 300
       = (example_store_cancelled, Inl SlotAlreadyBooked)"
    by (rule createBooking_taken)
  moreover have "map status (bookings example_store_cancelled) = [Cancelled]"
    by (simp add: example_store_cancelled_def)
  ultimately show ?thesis
    using createBooking_example cancelBooking_example by simp
qed

subsection \<open>History entries\<close>

text \<open>
  Claim C3, as the code has it: a successful \<^verbatim>\<open>createBooking\<close> and a successful
  \<^verbatim>\<open>updateBooking\<close> append one history entry each, a successful
  \<^verbatim>\<open>cancelBooking\<close> appends two, one with action modified (written by the
  \<^verbatim>\<open>updateBooking\<close> it calls) and one with action cancelled. \<^verbatim>\<open>oldValues\<close> is
  the row before the call (null for a creation); \<^verbatim>\<open>newValues\<close> is the object the call
  computed, that is the argument of \<^verbatim>\<open>createBooking\<close> or the old row overlaid with the
  updates. The stored row after the call is that object with \<^verbatim>\<open>updatedAt\<close> set to the
  time of the call (for a creation: with the id and timestamps the engine assigns).
\<close>

theorem history_entries_of_mutations:
  "(createBooking db b now = (db1, Inr rowid) \<longrightarrow>
      booking_history db1 = booking_history db @
        [\<lparr>bookingId = rowid, action = ActCreated, oldValues = None,
          newValues = Some (InputValues b), performedBy = telegramUserId b, timestamp = now\<rparr>]
      \<and> bookings db1 = bookings db @ [inserted_row b rowid now]
      \<and> new_booking.truncate (inserted_row b rowid now)
          = b\<lparr>notes_col := (if notes_col b = Some [] then None else notes_col b)\<rparr>)
   \<and> (updateBooking db i updates who now = (db2, Inr ())
        \<and> getBookingById db i = Inr (Some old) \<longrightarrow>
      booking_history db2 = booking_history db @
        [\<lparr>bookingId = i, action = ActModified, oldValues = Some (RowValues old),
          newValues = Some (RowValues (spread old updates)), performedBy = who,
          timestamp = now\<rparr>]
      \<and> getBookingById db2 (id_col (spread old updates))
          = Inr (Some ((spread old updates)\<lparr>updatedAt := now\<rparr>)))
   \<and> (cancelBooking db i who now = (db3, Inr ())
        \<and> getBookingById db i = Inr (Some old) \<longrightarrow>
      booking_history db3 = booking_history db @
        [\<lparr>bookingId = i, action = ActModified, oldValues = Some (RowValues old),
          newValues = Some (RowValues (old\<lparr>status := Cancelled\<rparr>)), performedBy = who,
          timestamp = now\<rparr>,
         \<lparr>bookingId = i, action = ActCancelled, oldValues = Some (RowValues old),
          newValues = Some (RowValues (old\<lparr>status := Cancelled\<rparr>)), performedBy = who,
          timestamp = now\<rparr>]
      \<and> getBookingById db3 i = Inr (Some (old\<lparr>status := Cancelled, updatedAt := now\<rparr>)))"
proof (intro conjI impI)
  assume c: "createBooking db b now = (db1, Inr rowid)"
  from createBooking_outcome [OF c]
  have rowid: "rowid = next_rowid db"
    and db1: "db1 = db\<lparr>bookings := bookings db @ [inserted_row b (next_rowid db) now],
                    bookings_seq := next_rowid db,
                    booking_history := booking_history db @ [created_entry b (next_rowid db) now]\<rparr>"
    by auto
  show "booking_history db1 = booking_history db @
        [\<lparr>bookingId = rowid, action = ActCreated, oldValues = None,
          newValues = Some (InputValues b), performedBy = telegramUserId b, timestamp = now\<rparr>]"
    by (simp add: db1 rowid created_entry_def)
  show "bookings db1 = bookings db @ [inserted_row b rowid now]"
    by (simp add: db1 rowid)
  show "new_booking.truncate (inserted_row b rowid now)
          = b\<lparr>notes_col := (if notes_col b = Some [] then None else notes_col b)\<rparr>"
    by (simp add: inserted_row_def new_booking.truncate_def)
next
  assume "updateBooking db i updates who now = (db2, Inr ()) \<and> getBookingById db i = Inr (Some old)"
  then have u: "updateBooking db i updates who now = (db2, Inr ())"
    and g: "getBookingById db i = Inr (Some old)"
    by simp_all
  from u obtain old' where g': "getBookingById db i = Inr (Some old')"
    and db2: "db2 = db\<lparr>bookings := update_rows db i updates now,
                  booking_history := booking_history db @ [modified_entry i old' updates who now]\<rparr>"
    by (rule updateBooking_Inr)
  from g g' have eq: "old' = old" by simp
  show "booking_history db2 = booking_history db @
        [\<lparr>bookingId = i, action = ActModified, oldValues = Some (RowValues old),
          newValues = Some (RowValues (spread old updates)), performedBy = who,
          timestamp = now\<rparr>]"
    by (simp add: db2 eq modified_entry_def)
  show "getBookingById db2 (id_col (spread old updates))
          = Inr (Some ((spread old updates)\<lparr>updatedAt := now\<rparr>))"
    using u g by (rule getBookingById_after_update)
next
  assume "cancelBooking db i who now = (db3, Inr ()) \<and> getBookingById db i = Inr (Some old)"
  then have k: "cancelBooking db i who now = (db3, Inr ())"
    and g: "getBookingById db i = Inr (Some old)"
    by simp_all
  from k obtain old' where g': "getBookingById db i = Inr (Some old')"
    and db3: "db3 = db\<lparr>bookings := update_rows db i [Set_status Cancelled] now,
                  booking_history := booking_history db @
                    [modified_entry i old' [Set_status Cancelled] who now,
                     cancelled_entry i old' who now]\<rparr>"
    by (rule cancelBooking_Inr)
  from g g' have eq: "old' = old" by simp
  show "booking_history db3 = booking_history db @
        [\<lparr>bookingId = i, action = ActModified, oldValues = Some (RowValues old),
          newValues = Some (RowValues (old\<lparr>status := Cancelled\<rparr>)), performedBy = who,
          timestamp = now\<rparr>,
         \<lparr>bookingId = i, action = ActCancelled, oldValues = Some (RowValues old),
          newValues = Some (RowValues (old\<lparr>status := Cancelled\<rparr>)), performedBy = who,
          timestamp = now\<rparr>]"
    by (simp add: db3 eq modified_entry_def cancelled_entry_def spread_cancel)
  show "getBookingById db3 i = Inr (Some (old\<lparr>status := Cancelled, updatedAt := now\<rparr>))"
    using k g by (rule getBookingById_after_cancel)
qed

theorem history_entries_of_mutations_witness:
  "createBooking example_store example_booking 100 = (example_store_booked, Inr 1)
   \<and> map action (booking_history example_store_booked) = [ActCreated]
   \<and> updateBooking example_store_booked 1 [Set_sessionTime ''15:00''] ''42'' 200
       = (example_store_moved, Inr ())
   \<and> map action (booking_history example_store_moved) = [ActCreated, ActModified]
   \<and> getBookingById example_store_moved 1
       = Inr (Some ((inserted_row example_booking 1 100)\<lparr>sessionTime := ''15:00'', updatedAt := 200\<rparr>))
   \<and> cancelBooking example_store_booked 1 ''42'' 200 = (example_store_cancelled, Inr ())
   \<and> map action (booking_history example_store_cancelled)
       = [ActCreated, ActModified, ActCancelled]"
proof -
  note h = history_entries_of_mutations
  have e: "booking_history example_store = []"
    by (simp add: example_store_def)
  from h [where db = example_store and b = example_booking and now = 100
            and ?db1.0 = example_store_booked and rowid = 1, THEN conjunct1]
    createBooking_example
  have a: "map action (booking_history example_store_booked) = [ActCreated]"
    by (simp add: e)
  from h [where db = example_store_booked and i = 1 and updates = "[Set_sessionTime ''15:00'']"
            and who = "''42''" and now = 200 and ?db2.0 = example_store_moved
            and old = "inserted_row example_booking 1 100", THEN conjunct2, THEN conjunct1]
    updateBooking_example getBookingById_example
  have b: "map action (booking_history example_store_moved) = [ActCreated, ActModified]"
    and b': "getBookingById example_store_moved 1
       = Inr (Some ((inserted_row example_booking 1 100)\<lparr>sessionTime := ''15:00'', updatedAt := 200\<rparr>))"
    by (simp_all add: a spread_def inserted_row_def)
  from h [where db = example_store_booked and i = 1 and who = "''42''" and now = 200
            and ?db3.0 = example_store_cancelled
            and old = "inserted_row example_booking 1 100", THEN conjunct2, THEN conjunct2]
    cancelBooking_example getBookingById_example
  have c: "map action (booking_history example_store_cancelled)
       = [ActCreated, ActModified, ActCancelled]"
    by (simp add: a)
  from a b b' c createBooking_example updateBooking_example cancelBooking_example
  show ?thesis by simp
qed

text \<open>
  The claim as written fails: one \<^verbatim>\<open>cancelBooking\<close> call appends two entries, and the
  \<^verbatim>\<open>newValues\<close> of the entry carry the old \<^verbatim>\<open>updatedAt\<close> (100) while the stored
  row has the new one (200).
\<close>

theorem cancelBooking_appends_two_entries:
  "cancelBooking example_store_booked 1 ''42'' 200 = (example_store_cancelled, Inr ())
   \<and> length (booking_history example_store_cancelled)
       = length (booking_history example_store_booked) + 2
   \<and> map action (booking_history example_store_cancelled)
       = [ActCreated, ActModified, ActCancelled]
   \<and> newValues (last (booking_history example_store_cancelled))
       = Some (RowValues ((inserted_row example_booking 1 100)\<lparr>status := Cancelled\<rparr>))
   \<and> getBookingById example_store_cancelled 1
       = Inr (Some ((inserted_row example_booking 1 100)\<lparr>status := Cancelled, updatedAt := 200\<rparr>))
   \<and> updatedAt ((inserted_row example_booking 1 100)\<lparr>status := Cancelled\<rparr>) = 100"
proof -
  have "getBookingById example_store_cancelled 1
       = Inr (Some ((inserted_row example_booking 1 100)\<lparr>status := Cancelled, updatedAt := 200\<rparr>))"
    using cancelBooking_example getBookingById_example
    by (rule getBookingById_after_cancel)
  then show ?thesis
    using cancelBooking_example
    by (simp add: example_store_cancelled_def example_store_booked_def created_entry_def
        modified_entry_def cancelled_entry_def inserted_row_def)
qed

subsection \<open>Creating the same slot twice\<close>

text \<open>
  Claim C4: on a store with both tables in which the slot is free, \<^verbatim>\<open>createBooking\<close>
  for a booking of status active succeeds, a second \<^verbatim>\<open>createBooking\<close> for the same
  date and time fails with the error \<^verbatim>\<open>This time slot is already booked\<close>, which is
  not an engine error, and afterwards exactly one active row holds the slot.
\<close>

theorem createBooking_same_slot_twice:
  assumes "table_exists db ''bookings''" and "table_exists db ''booking_history''"
    and "slot_of b1 \<notin> set (map slot_of (bookings db))"
    and "slot_of b2 = slot_of b1" and "status b1 = Active"
    and "createBooking db b1 t1 = (db1, r1)" and "createBooking db1 b2 t2 = (db2, r2)"
  shows "r1 = Inr (next_rowid db) \<and> r2 = Inl SlotAlreadyBooked
     \<and> (\<forall>c. SlotAlreadyBooked \<noteq> SqliteError c)
     \<and> length (filter (\<lambda>r. slot_of r = slot_of b1 \<and> status r = Active) (bookings db2)) = 1"
proof -
  from assms(1-3) assms(6)
  have db1: "db1 = db\<lparr>bookings := bookings db @ [inserted_row b1 (next_rowid db) t1],
         bookings_seq := next_rowid db,
         booking_history := booking_history db @ [created_entry b1 (next_rowid db) t1]\<rparr>"
    and r1: "r1 = Inr (next_rowid db)"
    by (simp_all add: createBooking_free)
  have t: "table_exists db1 ''bookings''"
    using assms(1) by (simp add: db1 table_exists_def)
  have taken: "slot_of b2 \<in> set (map slot_of (bookings db1))"
    using assms(4) by (simp add: db1)
  from createBooking_taken [OF t taken] assms(7)
  have db2: "db2 = db1" and r2: "r2 = Inl SlotAlreadyBooked"
    by simp_all
  have none: "filter (\<lambda>r. slot_of r = slot_of b1 \<and> status r = Active) (bookings db) = []"
    using assms(3) by (auto simp: filter_empty_conv image_iff dest: sym)
  have "length (filter (\<lambda>r. slot_of r = slot_of b1 \<and> status r = Active) (bookings db2)) = 1"
    using assms(5) by (simp add: db2 db1 none)
  with r1 r2 show ?thesis by simp
qed

theorem createBooking_same_slot_twice_witness:
  "createBooking example_store example_booking 100 = (example_store_booked, Inr 1)
   \<and> createBooking example_store_booked (example_booking\<lparr>telegramUserId := ''77''\<rparr>) 150
       = (example_store_booked, Inl SlotAlreadyBooked)
   \<and> length (filter (\<lambda>r. slot_of r = (''2024-06-10'', ''14:00'') \<and> status r = Active)
               (bookings example_store_booked)) = 1"
proof -
  have tb: "table_exists example_store ''bookings''"
    and th: "table_exists example_store ''booking_history''"
    by (simp_all add: table_exists_def example_store_def)
  have free: "slot_of example_booking \<notin> set (map slot_of (bookings example_store))"
    by (simp add: example_store_def)
  have same: "slot_of (example_booking\<lparr>telegramUserId := ''77''\<rparr>) = slot_of example_booking"
    by (simp add: slot_of_def)
  have act: "status example_booking = Active"
    by (simp add: example_booking_def)
  have second: "createBooking example_store_booked (example_booking\<lparr>telegramUserId := ''77''\<rparr>) 150
      = (fst (createBooking example_store_booked (example_booking\<lparr>telegramUserId := ''77''\<rparr>) 150),
         snd (createBooking example_store_booked (example_booking\<lparr>telegramUserId := ''77''\<rparr>) 150))"
    by simp
  from createBooking_same_slot_twice [OF tb th free same act createBooking_example second]
  have r2: "snd (createBooking example_store_booked (example_booking\<lparr>telegramUserId := ''77''\<rparr>) 150)
              = Inl SlotAlreadyBooked"
    and n: "length (filter (\<lambda>r. slot_of r = slot_of example_booking \<and> status r = Active)
         (bookings (fst (createBooking example_store_booked
            (example_booking\<lparr>telegramUserId := ''77''\<rparr>) 150)))) = 1"
    by simp_all
  have "table_exists example_store_booked ''bookings''"
    by (simp add: table_exists_def example_store_booked_def example_store_def)
  moreover have "slot_of (example_booking\<lparr>telegramUserId := ''77''\<rparr>)
      \<in> set (map slot_of (bookings example_store_booked))"
    by (simp add: example_store_booked_def slot_of_def inserted_row_def)
  ultimately have c2: "createBooking example_store_booked (example_booking\<lparr>telegramUserId := ''77''\<rparr>) 150
       = (example_store_booked, Inl SlotAlreadyBooked)"
    by (rule createBooking_taken)
  have s: "slot_of example_booking = (''2024-06-10'', ''14:00'')"
    by (simp add: slot_of_def example_booking_def)
  from n have "length (filter (\<lambda>r. slot_of r = (''2024-06-10'', ''14:00'') \<and> status r = Active)
               (bookings example_store_booked)) = 1"
    by (simp add: c2 s)
  with createBooking_example c2 show ?thesis by simp
qed

subsection \<open>The empty update\<close>

text \<open>
  Claim C10: for a partial update with at least one property the generated UPDATE text is
  well formed: it parses, with the assigned columns followed by \<^verbatim>\<open>updatedAt\<close>, and
  \<^verbatim>\<open>prepare\<close> accepts it. \<^verbatim>\<open>updateBooking\<close> then runs the statement: it succeeds,
  with the row updated and one history entry appended, when the history table exists, the
  id is left as it is and the new slot is not that of another row; and when it fails for
  an existing booking, the error is that of running the statement or of the history
  insert, never that of preparing it. For the empty update the text does not parse, and
  \<^verbatim>\<open>updateBooking\<close> fails with the store unchanged, so without any write to
  \<^verbatim>\<open>bookings\<close> or \<^verbatim>\<open>booking_history\<close>.
\<close>

theorem updateBooking_requires_a_field:
  "(updates \<noteq> [] \<longrightarrow>
      Option.bind (tokenize (update_sql (map key_of updates))) parse_update
        = Some (''bookings'', map key_of updates @ [''updatedAt''], ''id''))
   \<and> (updates \<noteq> [] \<and> table_exists db ''bookings'' \<longrightarrow>
        prepare_update db (map key_of updates) = Inr ())
   \<and> (updates \<noteq> [] \<and> getBookingById db i = Inr (Some old)
        \<and> table_exists db ''booking_history''
        \<and> id_col (updated_row old updates now) = i
        \<and> slot_of (updated_row old updates now)
             \<notin> set (map slot_of (filter (\<lambda>x. id_col x \<noteq> i) (bookings db))) \<longrightarrow>
        updateBooking db i updates who now
          = (db\<lparr>bookings := update_rows db i updates now,
                 booking_history := booking_history db @ [modified_entry i old updates who now]\<rparr>,
             Inr ()))
   \<and> (updates \<noteq> [] \<and> getBookingById db i = Inr (Some old)
        \<and> updateBooking db i updates who now = (db', Inl e) \<longrightarrow>
        run_update db i updates now = Inl e
        \<or> (\<exists>db1. run_update db i updates now = Inr db1
              \<and> logBookingHistory db1 i ActModified (Some (RowValues old))
                   (Some (RowValues (spread old updates))) who now = Inl e))
   \<and> Option.bind (tokenize (update_sql [])) parse_update = None
   \<and> (\<exists>e. updateBooking db i [] who now = (db, Inl e))
   \<and> (getBookingById db i = Inr (Some old) \<longrightarrow>
        updateBooking db i [] who now = (db, Inl (SqliteError ''SQLITE_ERROR'')))"
proof (intro conjI impI)
  assume "updates \<noteq> []"
  then show "Option.bind (tokenize (update_sql (map key_of updates))) parse_update
        = Some (''bookings'', map key_of updates @ [''updatedAt''], ''id'')"
    by (rule parse_update_sql)
next
  assume "updates \<noteq> [] \<and> table_exists db ''bookings''"
  then show "prepare_update db (map key_of updates) = Inr ()"
    by (simp add: prepare_update_nonempty)
next
  assume a: "updates \<noteq> [] \<and> getBookingById db i = Inr (Some old)
        \<and> table_exists db ''booking_history''
        \<and> id_col (updated_row old updates now) = i
        \<and> slot_of (updated_row old updates now)
             \<notin> set (map slot_of (filter (\<lambda>x. id_col x \<noteq> i) (bookings db)))"
  then have "id_col (updated_row old updates now)
               \<notin> set (map id_col (filter (\<lambda>x. id_col x \<noteq> i) (bookings db)))"
    by auto
  with a show "updateBooking db i updates who now
          = (db\<lparr>bookings := update_rows db i updates now,
                 booking_history := booking_history db @ [modified_entry i old updates who now]\<rparr>,
             Inr ())"
    by (intro updateBooking_ok) simp_all
next
  assume a: "updates \<noteq> [] \<and> getBookingById db i = Inr (Some old)
        \<and> updateBooking db i updates who now = (db', Inl e)"
  then have "table_exists db ''bookings''"
    using getBookingById_Some [of db i old] by simp
  with a have "prepare_update db (map key_of updates) = Inr ()"
    by (simp add: prepare_update_nonempty)
  with a show "run_update db i updates now = Inl e
        \<or> (\<exists>db1. run_update db i updates now = Inr db1
              \<and> logBookingHistory db1 i ActModified (Some (RowValues old))
                   (Some (RowValues (spread old updates))) who now = Inl e)"
    by (auto simp: updateBooking_def split: sum.splits)
next
  show "Option.bind (tokenize (update_sql [])) parse_update = None"
    by (rule parse_update_sql_empty)
next
  show "\<exists>e. updateBooking db i [] who now = (db, Inl e)"
  proof (cases "getBookingById db i")
    case (Inl e)
    then show ?thesis by (simp add: updateBooking_def)
  next
    case (Inr ob)
    then show ?thesis
      by (cases ob) (simp_all add: updateBooking_def prepare_update_empty)
  qed
next
  assume "getBookingById db i = Inr (Some old)"
  then show "updateBooking db i [] who now = (db, Inl (SqliteError ''SQLITE_ERROR''))"
    by (simp add: updateBooking_def prepare_update_empty)
qed

theorem updateBooking_requires_a_field_witness:
  "Option.bind (tokenize (update_sql [''sessionTime''])) parse_update
     = Some (''bookings'', [''sessionTime'', ''updatedAt''], ''id'')
   \<and> prepare_update example_store_booked [''sessionTime''] = Inr ()
   \<and> updateBooking example_store_booked 1 [Set_sessionTime ''15:00''] ''42'' 200
       = (example_store_booked\<lparr>
            bookings := update_rows example_store_booked 1 [Set_sessionTime ''15:00''] 200,
            booking_history := booking_history example_store_booked @
              [modified_entry 1 (inserted_row example_booking 1 100) [Set_sessionTime ''15:00'']
                 ''42'' 200]\<rparr>,
          Inr ())
   \<and> updateBooking example_store_booked 1 [] ''42'' 200
       = (example_store_booked, Inl (SqliteError ''SQLITE_ERROR''))"
  using updateBooking_requires_a_field [of "[Set_sessionTime ''15:00'']" example_store_booked 1
      "inserted_row example_booking 1 100" 200 "''42''"] getBookingById_example
  by (simp add: table_exists_def example_store_booked_def example_store_def
      updated_row_def inserted_row_def slot_of_def
      del: tokenize.simps)

section \<open>Credential refresh\<close>

subsection \<open>The refresh step of the service\<close>

text \<open>
  Without a refresh token \<^verbatim>\<open>refreshTokenIfNeeded\<close> fails before anything is sent. With
  one it sends the exchange, whatever the expiry date of the credential it holds.
\<close>

lemma refreshTokenIfNeeded_without_refresh_token:
  assumes "\<not> truthy (refresh_token (auth_credentials svc))"
  shows "refreshTokenIfNeeded provider getTime svc = (svc, Inl AuthenticationFailed)"
  using assms
  by (auto simp: refreshTokenIfNeeded_def refreshAccessToken_def refreshTokenNoCache_def
      truthy_def split: option.splits)

lemma refreshTokenIfNeeded_sends_exchange:
  assumes "truthy (refresh_token (auth_credentials svc))"
  shows "sent (fst (refreshTokenIfNeeded provider getTime svc)) = sent svc @ [RefreshExchange]"
  using assms
  by (auto simp: refreshTokenIfNeeded_def refreshAccessToken_def refreshTokenNoCache_def
      truthy_def Let_def split: option.splits reply.splits sum.splits)

lemma refreshTokenIfNeeded_result:
  "snd (refreshTokenIfNeeded provider getTime svc) = Inr ()
   \<or> snd (refreshTokenIfNeeded provider getTime svc) = Inl AuthenticationFailed"
  by (auto simp: refreshTokenIfNeeded_def Let_def split: prod.splits sum.splits)

text \<open>
  When the exchange of \<^verbatim>\<open>refreshTokenIfNeeded\<close> is refused or gets no answer, the
  calling method sends no request to the calendar API and fails with the authentication
  error.
\<close>

lemma calendar_request_refresh_failure:
  assumes "snd (refreshTokenIfNeeded provider getTime svc) \<noteq> Inr ()"
  shows "calendar_request provider getTime api rq svc
           = (fst (refreshTokenIfNeeded provider getTime svc), Inl AuthenticationFailed)"
proof -
  obtain svc1 r where r: "refreshTokenIfNeeded provider getTime svc = (svc1, r)"
    by (cases "refreshTokenIfNeeded provider getTime svc")
  with assms refreshTokenIfNeeded_result [of provider getTime svc]
  have "r = Inl AuthenticationFailed" by simp
  with r show ?thesis by (simp add: calendar_request_def)
qed

lemma failed_exchange_is_authentication_error:
  assumes "refresh_token (auth_credentials svc) = Some rt" and "rt \<noteq> []"
    and "provider (length (sent svc)) rt = Refused code message
         \<or> provider (length (sent svc)) rt = NoReply message"
  shows "calendar_request provider getTime api rq svc
           = (svc\<lparr>sent := sent svc @ [RefreshExchange]\<rparr>, Inl AuthenticationFailed)"
  using assms
  by (auto simp: calendar_request_def refreshTokenIfNeeded_def refreshAccessToken_def
      refreshTokenNoCache_def Let_def)

text \<open>
  A service that was never authorised sends nothing at all. A service whose provider hands
  out tokens that live for one minute exchanges twice for one call: once in
  \<^verbatim>\<open>refreshTokenIfNeeded\<close>, and once more in the client, which finds the new token about
  to expire; the token the client then holds is not the one that was stored.
\<close>

lemma unauthorised_service_sends_nothing:
  "createEvent (example_provider 3600) (\<lambda>_. 1000000) (\<lambda>_. Reply ''evt1'')
       example_service_unauthorised
     = (example_service_unauthorised, Inl AuthenticationFailed)"
  by (simp add: createEvent_def calendar_request_def refreshTokenIfNeeded_def
      refreshAccessToken_def refreshTokenNoCache_def example_service_unauthorised_def Let_def)

lemma short_lived_token_is_exchanged_twice:
  "createEvent (example_provider 60) (\<lambda>_. 1000000) (\<lambda>_. Reply ''evt1'') example_service
     = (example_service\<lparr>
          auth_credentials := \<lparr>access_token = Some ''a3'', refresh_token = Some ''r1'',
                                expiry_date = Some 1060000\<rparr>,
          tokens := (tokens example_service)\<lparr>auth_tokens :=
            Some \<lparr>accessToken = ''a2'', refreshToken = ''r1'', expiryDate = 1060000\<rparr>\<rparr>,
          sent := [RefreshExchange, RefreshExchange, EventsInsert],
          readings := 3\<rparr>,
        Inr ''evt1'')"
  by (simp add: createEvent_def calendar_request_def refreshTokenIfNeeded_def
      refreshAccessToken_def refreshTokenNoCache_def storeTokens_def request_def send_def
      getRequestMetadata_def isTokenExpiring_def eagerRefreshThresholdMillis_def truthy_def
      Let_def
      example_service_def example_credentials_def example_provider_def example_store_def
      table_exists_def)

subsection \<open>Exchange of an unexpired credential\<close>

text \<open>
  Claim C6 says that the refresh-token exchange is performed only if the credential is
  expired. The method is named \<^verbatim>\<open>refreshTokenIfNeeded\<close>, but its body has no condition:
  it calls \<^verbatim>\<open>refreshAccessToken()\<close> on every call. At time 1000000 the credential of the
  example service, which expires at 5000000, is not expired; \<^verbatim>\<open>refreshTokenIfNeeded\<close>
  exchanges it all the same, so \<^verbatim>\<open>createEvent\<close> sends an exchange before its insert.
  The client by itself, which does check the expiry, sends the insert only.
\<close>

theorem unexpired_credential_is_exchanged:
  "auth_credentials example_service = example_credentials
   \<and> \<not> token_expired 1000000 example_credentials
   \<and> refreshTokenIfNeeded (example_provider 3600) (\<lambda>_. 1000000) example_service
     = (example_service\<lparr>
          auth_credentials := \<lparr>access_token = Some ''a2'', refresh_token = Some ''r1'',
                                expiry_date = Some 4600000\<rparr>,
          tokens := (tokens example_service)\<lparr>auth_tokens :=
            Some \<lparr>accessToken = ''a2'', refreshToken = ''r1'', expiryDate = 4600000\<rparr>\<rparr>,
          sent := [RefreshExchange],
          readings := 1\<rparr>,
        Inr ())
   \<and> sent (fst (createEvent (example_provider 3600) (\<lambda>_. 1000000) (\<lambda>_. Reply ''evt1'')
                   example_service))
       = [RefreshExchange, EventsInsert]
   \<and> sent (fst (request (example_provider 3600) (\<lambda>_. 1000000) (\<lambda>_. Reply ''evt1'')
                   EventsInsert example_service))
       = [EventsInsert]"
  by (simp add: createEvent_def calendar_request_def refreshTokenIfNeeded_def
      refreshAccessToken_def refreshTokenNoCache_def storeTokens_def request_def send_def
      getRequestMetadata_def isTokenExpiring_def eagerRefreshThresholdMillis_def truthy_def
      Let_def
      token_expired_def example_service_def example_credentials_def example_provider_def
      example_store_def table_exists_def)

section \<open>Migrations\<close>

subsection \<open>Forward scripts\<close>

lemma exec_stmt_frame:
  "exec_stmt db st = Inr db' \<Longrightarrow>
     migrations db' = migrations db \<and> set (tables db) \<subseteq> set (tables db')
     \<and> bookings db' = bookings db \<and> booking_history db' = booking_history db"
  by (cases st) (auto split: if_splits)

lemma exec_frame:
  "exec db sts = Inr db' \<Longrightarrow>
     migrations db' = migrations db \<and> set (tables db) \<subseteq> set (tables db')
     \<and> bookings db' = bookings db \<and> booking_history db' = booking_history db"
proof (induction sts arbitrary: db)
  case Nil
  then show ?case by simp
next
  case (Cons st sts)
  from Cons.prems obtain db1 where 1: "exec_stmt db st = Inr db1" and 2: "exec db1 sts = Inr db'"
    by (auto split: sum.splits)
  from exec_stmt_frame [OF 1] Cons.IH [OF 2] show ?case by auto
qed

lemma exec_creates:
  "exec db sts = Inr db' \<Longrightarrow> CreateTable t \<in> set sts \<Longrightarrow> table_exists db' t"
proof (induction sts arbitrary: db)
  case Nil
  then show ?case by simp
next
  case (Cons st sts)
  from Cons.prems obtain db1 where 1: "exec_stmt db st = Inr db1" and 2: "exec db1 sts = Inr db'"
    by (auto split: sum.splits)
  show ?case
  proof (cases "st = CreateTable t")
    case True
    with 1 have "table_exists db1 t"
      by (auto simp: table_exists_def split: if_splits)
    with exec_frame [OF 2] show ?thesis by (auto simp: table_exists_def)
  next
    case False
    with Cons.prems have "CreateTable t \<in> set sts" by simp
    with Cons.IH [OF 2] show ?thesis by simp
  qed
qed

lemma exec_table_then_indexes:
  "\<exists>db'. exec db (CreateTable t # map (\<lambda>i. CreateIndex i t) is) = Inr db'"
proof -
  have ix: "table_exists d t \<Longrightarrow> \<exists>d'. exec d (map (\<lambda>i. CreateIndex i t) is) = Inr d'" for d
  proof (induction "is" arbitrary: d)
    case Nil
    show ?case by simp
  next
    case (Cons i "is")
    show ?case
    proof (cases "i \<in> set (indexes d)")
      case True
      with Cons show ?thesis by simp
    next
      case False
      have "table_exists (d\<lparr>indexes := indexes d @ [i]\<rparr>) t"
        using Cons.prems by (simp add: table_exists_def)
      from Cons.IH [OF this] False Cons.prems show ?thesis by simp
    qed
  qed
  show ?thesis
  proof (cases "table_exists db t")
    case True
    with ix [of db] show ?thesis by simp
  next
    case False
    have "table_exists (db\<lparr>tables := tables db @ [t]\<rparr>) t"
      by (simp add: table_exists_def)
    from ix [OF this] False show ?thesis by simp
  qed
qed

lemma exec_up_succeeds:
  assumes "m \<in> set getMigrations"
  shows "\<exists>db'. exec db (up m) = Inr db'"
proof -
  from assms consider "version m = 1" "up m = CreateTable ''bookings'' # map (\<lambda>i. CreateIndex i ''bookings'')
        [''idx_bookings_user'', ''idx_bookings_date'', ''idx_bookings_status'']"
    | "up m = CreateTable ''auth_tokens'' # map (\<lambda>i. CreateIndex i ''auth_tokens'') []"
    | "up m = CreateTable ''user_preferences'' # map (\<lambda>i. CreateIndex i ''user_preferences'')
        [''idx_user_prefs_user'']"
    | "up m = CreateTable ''booking_history'' # map (\<lambda>i. CreateIndex i ''booking_history'')
        [''idx_history_booking'', ''idx_history_timestamp'']"
    by (auto simp: getMigrations_def)
  then show ?thesis
    by cases (simp_all only: exec_table_then_indexes)
qed

lemma apply_migration_ok:
  assumes "m \<in> set getMigrations" and "table_exists db ''migrations''"
    and "version m \<notin> set (map m_version (migrations db))"
  shows "\<exists>db'. apply_migration sha256 m db = Inr db'
           \<and> migrations db' = migrations db @ [migration_row_of sha256 m]
           \<and> table_exists db' ''migrations''
           \<and> bookings db' = bookings db \<and> booking_history db' = booking_history db"
proof -
  from exec_up_succeeds [OF assms(1)] obtain db1 where e: "exec db (up m) = Inr db1"
    by blast
  from exec_frame [OF e] assms(2) have f: "migrations db1 = migrations db"
    "table_exists db1 ''migrations''" "bookings db1 = bookings db"
    "booking_history db1 = booking_history db"
    by (auto simp: table_exists_def)
  with assms(3) e show ?thesis
    by (simp add: apply_migration_def record_migration_def migration_row_of_def table_exists_def)
qed

lemma apply_migration_tables:
  assumes "apply_migration sha256 m db = Inr db'"
  shows "set (tables db) \<subseteq> set (tables db')"
    and "CreateTable t \<in> set (up m) \<Longrightarrow> table_exists db' t"
proof -
  from assms obtain db1 where e: "exec db (up m) = Inr db1"
    and r: "record_migration db1
              \<lparr>m_version = version m, m_name = name m,
               m_checksum = calculateMigrationChecksum sha256 m\<rparr> = Inr db'"
    by (auto simp: apply_migration_def split: sum.splits)
  from r have t: "tables db' = tables db1"
    by (auto simp: record_migration_def split: if_splits)
  from exec_frame [OF e] t show "set (tables db) \<subseteq> set (tables db')" by simp
  show "table_exists db' t" if "CreateTable t \<in> set (up m)"
    using exec_creates [OF e that] t by (simp add: table_exists_def)
qed

subsection \<open>The loop over the pending migrations\<close>

lemma run_pending_ok:
  assumes "set ms \<subseteq> set getMigrations" and "table_exists db ''migrations''"
    and "distinct (map version ms)"
    and "\<forall>m \<in> set ms. version m \<notin> set (map m_version (migrations db))"
  shows "\<exists>db'. run_pending sha256 db ms = (db', Inr ())
           \<and> migrations db' = migrations db @ map (migration_row_of sha256) ms
           \<and> table_exists db' ''migrations''
           \<and> bookings db' = bookings db \<and> booking_history db' = booking_history db"
  using assms
proof (induction ms arbitrary: db)
  case Nil
  then show ?case by simp
next
  case (Cons m ms)
  from Cons.prems have "m \<in> set getMigrations"
    "version m \<notin> set (map m_version (migrations db))"
    by simp_all
  from apply_migration_ok [OF this(1) Cons.prems(2) this(2), of sha256]
  obtain db1 where a: "apply_migration sha256 m db = Inr db1"
    and r: "migrations db1 = migrations db @ [migration_row_of sha256 m]"
    and t: "table_exists db1 ''migrations''"
    and b: "bookings db1 = bookings db" "booking_history db1 = booking_history db"
    by blast
  have fresh: "\<forall>m' \<in> set ms. version m' \<notin> set (map m_version (migrations db1))"
    using Cons.prems(3,4) by (auto simp: r migration_row_of_def image_iff dest: sym)
  from Cons.prems have "set ms \<subseteq> set getMigrations" "distinct (map version ms)"
    by simp_all
  from Cons.IH [OF this(1) t this(2) fresh]
  obtain db' where "run_pending sha256 db1 ms = (db', Inr ())"
    and "migrations db' = migrations db1 @ map (migration_row_of sha256) ms"
    and "table_exists db' ''migrations''"
    and "bookings db' = bookings db1" "booking_history db' = booking_history db1"
    by blast
  with a r b show ?case
    by (simp add: transaction_def)
qed

lemma run_pending_tables:
  "run_pending sha256 db ms = (db', Inr ()) \<Longrightarrow>
     set (tables db) \<subseteq> set (tables db')
     \<and> (\<forall>m \<in> set ms. \<forall>t. CreateTable t \<in> set (up m) \<longrightarrow> table_exists db' t)"
proof (induction ms arbitrary: db)
  case Nil
  then show ?case by simp
next
  case (Cons m ms)
  from Cons.prems obtain db1 where a: "apply_migration sha256 m db = Inr db1"
    and r: "run_pending sha256 db1 ms = (db', Inr ())"
    by (auto simp: transaction_def split: sum.splits)
  from Cons.IH [OF r] have sub: "set (tables db1) \<subseteq> set (tables db')"
    and rest: "\<forall>m \<in> set ms. \<forall>t. CreateTable t \<in> set (up m) \<longrightarrow> table_exists db' t"
    by simp_all
  from apply_migration_tables [OF a] sub
  have "set (tables db) \<subseteq> set (tables db')"
    and "\<forall>t. CreateTable t \<in> set (up m) \<longrightarrow> table_exists db' t"
    by (auto simp: table_exists_def)
  with rest show ?case by simp
qed

lemma run_pending_failure:
  "run_pending sha256 db ms = (db', Inl e) \<Longrightarrow>
     \<exists>k < length ms. run_pending sha256 db (take k ms) = (db', Inr ())
        \<and> apply_migration sha256 (ms ! k) db' = Inl e"
proof (induction ms arbitrary: db)
  case Nil
  then show ?case by simp
next
  case (Cons m ms)
  show ?case
  proof (cases "apply_migration sha256 m db")
    case (Inl e')
    with Cons.prems have "db' = db" "e' = e"
      by (simp_all add: transaction_def)
    with Inl have "run_pending sha256 db (take 0 (m # ms)) = (db', Inr ())
        \<and> apply_migration sha256 ((m # ms) ! 0) db' = Inl e"
      by simp
    then show ?thesis by blast
  next
    case (Inr db1)
    with Cons.prems have "run_pending sha256 db1 ms = (db', Inl e)"
      by (simp add: transaction_def)
    from Cons.IH [OF this] obtain k where k: "k < length ms"
      "run_pending sha256 db1 (take k ms) = (db', Inr ())"
      "apply_migration sha256 (ms ! k) db' = Inl e"
      by blast
    with Inr have "Suc k < length (m # ms)
        \<and> run_pending sha256 db (take (Suc k) (m # ms)) = (db', Inr ())
        \<and> apply_migration sha256 ((m # ms) ! Suc k) db' = Inl e"
      by (simp add: transaction_def)
    then show ?thesis by blast
  qed
qed

lemma versions_getMigrations: "map version getMigrations = [1, 2, 3, 4]"
  by (simp add: getMigrations_def)

lemma pending_ascending: "sorted_wrt (<) (map version (pendingMigrations db))"
proof -
  have "sorted_wrt (<) (map version getMigrations)"
    by (simp add: versions_getMigrations)
  then have "sorted_wrt (\<lambda>a b. version a < version b) getMigrations"
    by (simp add: sorted_wrt_map)
  then have "sorted_wrt (\<lambda>a b. version a < version b) (pendingMigrations db)"
    unfolding pendingMigrations_def by (rule sorted_wrt_filter)
  then show ?thesis by (simp add: sorted_wrt_map)
qed

lemma pending_fresh:
  "m \<in> set (pendingMigrations db) \<Longrightarrow> version m \<notin> set (map m_version (migrations db))"
proof
  assume "m \<in> set (pendingMigrations db)"
  then have gt: "currentVersion db < version m"
    by (simp add: pendingMigrations_def)
  assume "version m \<in> set (map m_version (migrations db))"
  then have "version m \<le> currentVersion db"
    unfolding currentVersion_def by (rule fold_max_ge_elem)
  with gt show False by simp
qed

lemma fold_max_append: "fold max (xs @ ys) (a::nat) = fold max ys (fold max xs a)"
  by simp

lemma pending_after_run:
  assumes "migrations db' = migrations db @ map (migration_row_of sha256) (pendingMigrations db)"
  shows "pendingMigrations db' = []"
proof -
  have "\<not> currentVersion db' < version m" if "m \<in> set getMigrations" for m
  proof (cases "currentVersion db < version m")
    case True
    with that have "m \<in> set (pendingMigrations db)"
      by (simp add: pendingMigrations_def)
    then have "version m \<in> set (map m_version (migrations db'))"
      by (force simp: assms migration_row_of_def)
    then have "version m \<le> currentVersion db'"
      unfolding currentVersion_def by (rule fold_max_ge_elem)
    then show ?thesis by simp
  next
    case False
    have "currentVersion db \<le> currentVersion db'"
      by (simp add: currentVersion_def assms fold_max_ge_init)
    with False show ?thesis by simp
  qed
  then show ?thesis
    by (simp add: pendingMigrations_def filter_empty_conv)
qed

lemma runMigrations_ok:
  assumes "table_exists db ''migrations''"
  shows "\<exists>db'. runMigrations sha256 db = (db', Inr ())
           \<and> migrations db' = migrations db @ map (migration_row_of sha256) (pendingMigrations db)
           \<and> table_exists db' ''migrations''
           \<and> bookings db' = bookings db \<and> booking_history db' = booking_history db"
proof (cases "pendingMigrations db = []")
  case True
  with assms show ?thesis by (simp add: runMigrations_def)
next
  case False
  have "set (pendingMigrations db) \<subseteq> set getMigrations"
    by (auto simp: pendingMigrations_def)
  moreover have "distinct (map version (pendingMigrations db))"
    using pending_ascending [of db] by (simp add: strict_sorted_iff)
  moreover have "\<forall>m \<in> set (pendingMigrations db). version m \<notin> set (map m_version (migrations db))"
    using pending_fresh by blast
  ultimately show ?thesis
    using run_pending_ok [of "pendingMigrations db" db sha256] assms False
    by (simp add: runMigrations_def)
qed

subsection \<open>The schema of the example stores\<close>

lemma pending_fresh_store:
  "pendingMigrations (initializeMigrationsTable example_store_fresh) = getMigrations"
  by (simp add: pendingMigrations_def currentVersion_def initializeMigrationsTable_def
      example_store_fresh_def table_exists_def getMigrations_def)

lemma schema_of_example_store:
  "runMigrations sha256 (initializeMigrationsTable example_store_fresh)
     = (example_store\<lparr>migrations := map (\<lambda>m. \<lparr>m_version = version m, m_name = name m,
                      m_checksum = calculateMigrationChecksum sha256 m\<rparr>) getMigrations\<rparr>, Inr ())"
  unfolding runMigrations_def pending_fresh_store
  by (simp add: getMigrations_def initializeMigrationsTable_def example_store_fresh_def
      table_exists_def transaction_def apply_migration_def record_migration_def
      example_store_def)

lemma schema_of_example_store_v3:
  "run_pending sha256 (initializeMigrationsTable example_store_fresh) (take 3 getMigrations)
     = (example_store_v3\<lparr>migrations := map (\<lambda>m. \<lparr>m_version = version m, m_name = name m,
                      m_checksum = calculateMigrationChecksum sha256 m\<rparr>) (take 3 getMigrations)\<rparr>, Inr ())"
  by (simp add: getMigrations_def initializeMigrationsTable_def example_store_fresh_def
      table_exists_def transaction_def apply_migration_def record_migration_def
      example_store_v3_def)

text \<open>
  A list that repeats migration 1: the second transaction fails on the primary key, and
  the store is the one the first transaction left.
\<close>

lemma run_pending_repeated_version:
  "run_pending (\<lambda>_. ''c0ffee'') (initializeMigrationsTable example_store_fresh)
       [hd getMigrations, hd getMigrations]
     = (fst (run_pending (\<lambda>_. ''c0ffee'') (initializeMigrationsTable example_store_fresh)
               [hd getMigrations]),
        Inl (SqliteError ''SQLITE_CONSTRAINT_PRIMARYKEY''))
   \<and> snd (run_pending (\<lambda>_. ''c0ffee'') (initializeMigrationsTable example_store_fresh)
               [hd getMigrations]) = Inr ()"
  by (simp add: getMigrations_def initializeMigrationsTable_def example_store_fresh_def
      table_exists_def transaction_def apply_migration_def record_migration_def)

subsection \<open>The schema after a run\<close>

lemma exec_stmt_schema:
  "exec_stmt db st = Inr db' \<Longrightarrow>
     set (tables db') = set (tables db) \<union> {t. st = CreateTable t}
     \<and> set (indexes db') = set (indexes db) \<union> {i. \<exists>t. st = CreateIndex i t}
     \<and> foreign_keys db' = foreign_keys db \<and> bookings_seq db' = bookings_seq db"
  by (cases st) (auto simp: table_exists_def split: if_splits)

lemma exec_schema:
  "exec db sts = Inr db' \<Longrightarrow>
     set (tables db') = set (tables db) \<union> {t. CreateTable t \<in> set sts}
     \<and> set (indexes db') = set (indexes db) \<union> {i. \<exists>t. CreateIndex i t \<in> set sts}
     \<and> foreign_keys db' = foreign_keys db \<and> bookings_seq db' = bookings_seq db"
proof (induction sts arbitrary: db)
  case Nil
  then show ?case by simp
next
  case (Cons st sts)
  from Cons.prems obtain db1 where 1: "exec_stmt db st = Inr db1" and 2: "exec db1 sts = Inr db'"
    by (auto split: sum.splits)
  from exec_stmt_schema [OF 1] Cons.IH [OF 2] show ?case by auto
qed

lemma apply_migration_schema:
  assumes "apply_migration sha256 m db = Inr db'"
  shows "set (tables db') = set (tables db) \<union> {t. CreateTable t \<in> set (up m)}
     \<and> set (indexes db') = set (indexes db) \<union> {i. \<exists>t. CreateIndex i t \<in> set (up m)}
     \<and> foreign_keys db' = foreign_keys db \<and> bookings_seq db' = bookings_seq db"
proof -
  from assms obtain db1 where e: "exec db (up m) = Inr db1"
    and r: "record_migration db1
              \<lparr>m_version = version m, m_name = name m,
               m_checksum = calculateMigrationChecksum sha256 m\<rparr> = Inr db'"
    by (auto simp: apply_migration_def split: sum.splits)
  from r have "tables db' = tables db1" "indexes db' = indexes db1"
    "foreign_keys db' = foreign_keys db1" "bookings_seq db' = bookings_seq db1"
    by (auto simp: record_migration_def split: if_splits)
  with exec_schema [OF e] show ?thesis by simp
qed

lemma run_pending_schema:
  "run_pending sha256 db ms = (db', Inr ()) \<Longrightarrow>
     set (tables db') = set (tables db) \<union> {t. \<exists>m \<in> set ms. CreateTable t \<in> set (up m)}
     \<and> set (indexes db')
         = set (indexes db) \<union> {i. \<exists>m \<in> set ms. \<exists>t. CreateIndex i t \<in> set (up m)}
     \<and> foreign_keys db' = foreign_keys db \<and> bookings_seq db' = bookings_seq db"
proof (induction ms arbitrary: db)
  case Nil
  then show ?case by simp
next
  case (Cons m ms)
  from Cons.prems obtain db1 where a: "apply_migration sha256 m db = Inr db1"
    and r: "run_pending sha256 db1 ms = (db', Inr ())"
    by (auto simp: transaction_def split: sum.splits)
  from apply_migration_schema [OF a] Cons.IH [OF r] show ?case by auto
qed

lemma currentVersion_Max:
  "currentVersion db = Max (set (0 # map m_version (migrations db)))"
  by (simp only: currentVersion_def Max.set_eq_fold)

lemma pending_rows:
  "map (migration_row_of sha256) (filter (\<lambda>m. v < version m) getMigrations) =
     filter (\<lambda>row. v < m_version row)
       [\<lparr>m_version = 1, m_name = ''initial_schema'',
         m_checksum = sha256
           ([CreateTable ''bookings'',
             CreateIndex ''idx_bookings_user'' ''bookings'',
             CreateIndex ''idx_bookings_date'' ''bookings'',
             CreateIndex ''idx_bookings_status'' ''bookings''],
            [DropTable ''bookings''])\<rparr>,
        \<lparr>m_version = 2, m_name = ''auth_tokens_table'',
         m_checksum = sha256 ([CreateTable ''auth_tokens''], [DropTable ''auth_tokens''])\<rparr>,
        \<lparr>m_version = 3, m_name = ''user_preferences_table'',
         m_checksum = sha256
           ([CreateTable ''user_preferences'',
             CreateIndex ''idx_user_prefs_user'' ''user_preferences''],
            [DropTable ''user_preferences''])\<rparr>,
        \<lparr>m_version = 4, m_name = ''booking_history_table'',
         m_checksum = sha256
           ([CreateTable ''booking_history'',
             CreateIndex ''idx_history_booking'' ''booking_history'',
             CreateIndex ''idx_history_timestamp'' ''booking_history''],
            [DropTable ''booking_history''])\<rparr>]"
  by (simp add: getMigrations_def migration_row_of_def calculateMigrationChecksum_def)

lemma runMigrations_schema:
  assumes "runMigrations sha256 db = (db', Inr ())"
  shows "set (tables db') = set (tables db)
           \<union> {t. \<exists>m \<in> set (pendingMigrations db). CreateTable t \<in> set (up m)}
     \<and> set (indexes db') = set (indexes db)
           \<union> {i. \<exists>m \<in> set (pendingMigrations db). \<exists>t. CreateIndex i t \<in> set (up m)}
     \<and> foreign_keys db' = foreign_keys db \<and> bookings_seq db' = bookings_seq db"
proof (cases "pendingMigrations db = []")
  case True
  with assms have "db' = db"
    by (simp add: runMigrations_def split: if_splits)
  with True show ?thesis by simp
next
  case False
  with assms have "run_pending sha256 db (pendingMigrations db) = (db', Inr ())"
    by (simp add: runMigrations_def split: if_splits)
  then show ?thesis by (rule run_pending_schema)
qed


lemma created_indexes_set:
  "{i. \<exists>m \<in> set ms. \<exists>t. CreateIndex i t \<in> set (up m)}
     = set [i. m \<leftarrow> ms, CreateIndex i t \<leftarrow> up m]"
  by (auto split: create_stmt.splits) 

lemma created_tables_set:
  "{t. \<exists>m \<in> set ms. CreateTable t \<in> set (up m)}
     = set [t. m \<leftarrow> ms, CreateTable t \<leftarrow> up m]"
  by (auto split: create_stmt.splits)

lemma pending_indexes:
  "{i. \<exists>m \<in> set (filter (\<lambda>m. v < version m) getMigrations).
          \<exists>t. CreateIndex i t \<in> set (up m)} =
     set (map snd (filter (\<lambda>(k, i). v < k)
       [(1, ''idx_bookings_user''), (1, ''idx_bookings_date''), (1, ''idx_bookings_status''),
        (3, ''idx_user_prefs_user''), (4, ''idx_history_booking''),
        (4, ''idx_history_timestamp'')]))"
proof -
  consider "v = 0" | "v = 1" | "v = 2" | "v = 3" | "4 \<le> v" by linarith
  then show ?thesis
    unfolding created_indexes_set
    by cases (simp_all add: getMigrations_def)
qed

lemma pending_tables:
  "{t. \<exists>m \<in> set (filter (\<lambda>m. v < version m) getMigrations). CreateTable t \<in> set (up m)} =
     set (map snd (filter (\<lambda>(k, t). v < k)
       [(1, ''bookings''), (2, ''auth_tokens''), (3, ''user_preferences''),
        (4, ''booking_history'')]))"
proof -
  consider "v = 0" | "v = 1" | "v = 2" | "v = 3" | "4 \<le> v" by linarith
  then show ?thesis
    unfolding created_tables_set
    by cases (simp_all add: getMigrations_def)
qed

subsection \<open>Running the migrations\<close>

text \<open>
  Claim C8. Let \<open>v\<close> be the greatest version recorded in table \<^verbatim>\<open>migrations\<close>, or 0
  when the table is empty. On a store with that table \<^verbatim>\<open>runMigrations\<close> succeeds. It
  appends to the table the rows of the migrations with a version above \<open>v\<close>, each once
  and in ascending order of version: version 1 \<^verbatim>\<open>initial_schema\<close>, version 2
  \<^verbatim>\<open>auth_tokens_table\<close>, version 3 \<^verbatim>\<open>user_preferences_table\<close> and version 4
  \<^verbatim>\<open>booking_history_table\<close>, each with the digest of its forward and reverse script. The
  tables and indexes of exactly these migrations are added, and the bookings and their
  history are left alone. Running again changes nothing, and a run on a store with
  \<open>v\<close> at least 4 changes nothing. Each migration is one transaction: whenever the loop
  stops at a failing migration, the store is the one the migrations before it left, and
  nothing of the failing migration is kept.
\<close>

theorem runMigrations_applies_pending_once_in_order:
  assumes "table_exists db ''migrations''"
    and "v = Max (set (0 # map m_version (migrations db)))"
  shows "\<exists>db'. runMigrations sha256 db = (db', Inr ())
     \<and> migrations db' = migrations db @
          filter (\<lambda>row. v < m_version row)
            [\<lparr>m_version = 1, m_name = ''initial_schema'',
              m_checksum = sha256
                ([CreateTable ''bookings'',
                  CreateIndex ''idx_bookings_user'' ''bookings'',
                  CreateIndex ''idx_bookings_date'' ''bookings'',
                  CreateIndex ''idx_bookings_status'' ''bookings''],
                 [DropTable ''bookings''])\<rparr>,
             \<lparr>m_version = 2, m_name = ''auth_tokens_table'',
              m_checksum = sha256 ([CreateTable ''auth_tokens''], [DropTable ''auth_tokens''])\<rparr>,
             \<lparr>m_version = 3, m_name = ''user_preferences_table'',
              m_checksum = sha256
                ([CreateTable ''user_preferences'',
                  CreateIndex ''idx_user_prefs_user'' ''user_preferences''],
                 [DropTable ''user_preferences''])\<rparr>,
             \<lparr>m_version = 4, m_name = ''booking_history_table'',
              m_checksum = sha256
                ([CreateTable ''booking_history'',
                  CreateIndex ''idx_history_booking'' ''booking_history'',
                  CreateIndex ''idx_history_timestamp'' ''booking_history''],
                 [DropTable ''booking_history''])\<rparr>]
     \<and> set (tables db') = set (tables db) \<union>
          set (map snd (filter (\<lambda>(k, t). v < k)
            [(1, ''bookings''), (2, ''auth_tokens''), (3, ''user_preferences''),
             (4, ''booking_history'')]))
     \<and> set (indexes db') = set (indexes db) \<union>
          set (map snd (filter (\<lambda>(k, i). v < k)
            [(1, ''idx_bookings_user''), (1, ''idx_bookings_date''),
             (1, ''idx_bookings_status''), (3, ''idx_user_prefs_user''),
             (4, ''idx_history_booking''), (4, ''idx_history_timestamp'')]))
     \<and> bookings db' = bookings db \<and> booking_history db' = booking_history db
     \<and> runMigrations sha256 db' = (db', Inr ())
     \<and> (4 \<le> v \<longrightarrow> db' = db)
     \<and> (\<forall>ms d e. run_pending sha256 db ms = (d, Inl e) \<longrightarrow>
           (\<exists>k < length ms. run_pending sha256 db (take k ms) = (d, Inr ())
              \<and> apply_migration sha256 (ms ! k) d = Inl e))"
proof -
  have v: "currentVersion db = v"
    by (simp only: currentVersion_Max assms(2))
  have p: "pendingMigrations db = filter (\<lambda>m. v < version m) getMigrations"
    by (simp add: pendingMigrations_def v)
  from runMigrations_ok [OF assms(1), of sha256] obtain db' where
    r: "runMigrations sha256 db = (db', Inr ())"
    and rows: "migrations db' = migrations db @ map (migration_row_of sha256) (pendingMigrations db)"
    and t: "table_exists db' ''migrations''"
    and b: "bookings db' = bookings db" "booking_history db' = booking_history db"
    by blast
  have "pendingMigrations db' = []"
    using rows by (rule pending_after_run)
  with t have again: "runMigrations sha256 db' = (db', Inr ())"
    by (simp add: runMigrations_def)
  have noop: "db' = db" if "4 \<le> v"
  proof -
    from that have "pendingMigrations db = []"
      by (simp add: p getMigrations_def)
    with r assms(1) show ?thesis by (simp add: runMigrations_def)
  qed
  have atomic: "\<forall>ms d e. run_pending sha256 db ms = (d, Inl e) \<longrightarrow>
           (\<exists>k < length ms. run_pending sha256 db (take k ms) = (d, Inr ())
              \<and> apply_migration sha256 (ms ! k) d = Inl e)"
    using run_pending_failure by blast
  note s = runMigrations_schema [OF r, unfolded p pending_tables pending_indexes]
  note rows' = rows [unfolded p pending_rows]
  from r rows' s b again noop atomic show ?thesis
    by (intro exI [of _ db']) simp
qed

theorem runMigrations_applies_pending_once_in_order_witness:
  "table_exists example_store_v1 ''migrations''
   \<and> 1 = Max (set (0 # map m_version (migrations example_store_v1)))
   \<and> runMigrations (\<lambda>_. ''c0ffee'') example_store_v1
       = (example_store\<lparr>migrations :=
            [\<lparr>m_version = 1, m_name = ''initial_schema'', m_checksum = ''c0ffee''\<rparr>,
             \<lparr>m_version = 2, m_name = ''auth_tokens_table'', m_checksum = ''c0ffee''\<rparr>,
             \<lparr>m_version = 3, m_name = ''user_preferences_table'', m_checksum = ''c0ffee''\<rparr>,
             \<lparr>m_version = 4, m_name = ''booking_history_table'', m_checksum = ''c0ffee''\<rparr>]\<rparr>,
          Inr ())
   \<and> runMigrations (\<lambda>_. ''c0ffee'')
         (example_store\<lparr>migrations :=
            [\<lparr>m_version = 1, m_name = ''initial_schema'', m_checksum = ''c0ffee''\<rparr>,
             \<lparr>m_version = 2, m_name = ''auth_tokens_table'', m_checksum = ''c0ffee''\<rparr>,
             \<lparr>m_version = 3, m_name = ''user_preferences_table'', m_checksum = ''c0ffee''\<rparr>,
             \<lparr>m_version = 4, m_name = ''booking_history_table'', m_checksum = ''c0ffee''\<rparr>]\<rparr>)
       = (example_store\<lparr>migrations :=
            [\<lparr>m_version = 1, m_name = ''initial_schema'', m_checksum = ''c0ffee''\<rparr>,
             \<lparr>m_version = 2, m_name = ''auth_tokens_table'', m_checksum = ''c0ffee''\<rparr>,
             \<lparr>m_version = 3, m_name = ''user_preferences_table'', m_checksum = ''c0ffee''\<rparr>,
             \<lparr>m_version = 4, m_name = ''booking_history_table'', m_checksum = ''c0ffee''\<rparr>]\<rparr>,
          Inr ())
   \<and> run_pending (\<lambda>_. ''c0ffee'') example_store_v1
         [\<lparr>version = 5, name = ''first'', up = [CreateTable ''first''], down = []\<rparr>,
          \<lparr>version = 5, name = ''second'', up = [CreateTable ''second''], down = []\<rparr>]
       = (fst (run_pending (\<lambda>_. ''c0ffee'') example_store_v1
                 [\<lparr>version = 5, name = ''first'', up = [CreateTable ''first''], down = []\<rparr>]),
          Inl (SqliteError ''SQLITE_CONSTRAINT_PRIMARYKEY''))
   \<and> tables (fst (run_pending (\<lambda>_. ''c0ffee'') example_store_v1
                 [\<lparr>version = 5, name = ''first'', up = [CreateTable ''first''], down = []\<rparr>,
                  \<lparr>version = 5, name = ''second'', up = [CreateTable ''second''], down = []\<rparr>]))
       = [''migrations'', ''bookings'', ''first'']"
proof -
  let ?rows = "[\<lparr>m_version = 1, m_name = ''initial_schema'', m_checksum = ''c0ffee''\<rparr>,
             \<lparr>m_version = 2, m_name = ''auth_tokens_table'', m_checksum = ''c0ffee''\<rparr>,
             \<lparr>m_version = 3, m_name = ''user_preferences_table'', m_checksum = ''c0ffee''\<rparr>,
             \<lparr>m_version = 4, m_name = ''booking_history_table'', m_checksum = ''c0ffee''\<rparr>]"
  let ?ms = "[\<lparr>version = 5, name = ''first'', up = [CreateTable ''first''], down = []\<rparr>,
          \<lparr>version = 5, name = ''second'', up = [CreateTable ''second''], down = []\<rparr>]"
  have t: "table_exists example_store_v1 ''migrations''"
    by (simp add: example_store_v1_def table_exists_def)
  have v: "1 = Max (set (0 # map m_version (migrations example_store_v1)))"
    by (simp add: example_store_v1_def)
  have e: "runMigrations (\<lambda>_. ''c0ffee'') example_store_v1
       = (example_store\<lparr>migrations := ?rows\<rparr>, Inr ())"
    by (simp add: runMigrations_def pendingMigrations_def currentVersion_def getMigrations_def
        example_store_v1_def example_store_def table_exists_def transaction_def
        apply_migration_def record_migration_def calculateMigrationChecksum_def)
  have f: "run_pending (\<lambda>_. ''c0ffee'') example_store_v1 ?ms
       = (fst (run_pending (\<lambda>_. ''c0ffee'') example_store_v1 [hd ?ms]),
          Inl (SqliteError ''SQLITE_CONSTRAINT_PRIMARYKEY''))"
    by (simp add: example_store_v1_def table_exists_def transaction_def
        apply_migration_def record_migration_def calculateMigrationChecksum_def)
  from runMigrations_applies_pending_once_in_order [OF t v, of "\<lambda>_. ''c0ffee''"]
  have "runMigrations (\<lambda>_. ''c0ffee'') (example_store\<lparr>migrations := ?rows\<rparr>)
       = (example_store\<lparr>migrations := ?rows\<rparr>, Inr ())"
    unfolding e by (elim exE conjE) simp
  moreover have "tables (fst (run_pending (\<lambda>_. ''c0ffee'') example_store_v1 ?ms))
       = [''migrations'', ''bookings'', ''first'']"
    by (simp add: example_store_v1_def table_exists_def transaction_def
        apply_migration_def record_migration_def calculateMigrationChecksum_def)
  ultimately show ?thesis using t v e f by simp
qed

end
